theory Spec2Isabelle
  imports Main "HOL-Library.AList"
begin

section \<open>JavaScript values\<close>

text \<open>
  The values that travel through the engine: file contents, the partial results of the
  extractors and the accumulator. A plain object is an association list in the order
  its keys were created (the order \<open>_.values\<close> and \<open>JSON.stringify\<close> enumerate);
  an array carries its elements and, as any JavaScript array can, named properties of
  its own. Field names are ordinary names (not array indices, not \<open>length\<close> or
  \<open>__proto__\<close>), and numbers are integers: the engine never computes with them.
\<close>

datatype js =
    Undefined
  | Null
  | Bool bool
  | Num int
  | Str string
  | Arr "js list" "(string \<times> js) list"
  | Obj "(string \<times> js) list"

type_synonym fields = "(string \<times> js) list"

section \<open>lodash\<close>

text \<open>
  \<open>_.isEmpty\<close>: \<open>null\<close> and \<open>undefined\<close> are empty, a string or an array is empty
  when its length is 0, a plain object when it has no key, and every other value
  (a boolean, a number) is empty.
\<close>

fun lodash_isEmpty :: "js \<Rightarrow> bool" where
  "lodash_isEmpty (Str s) = (s = [])"
| "lodash_isEmpty (Arr xs ps) = (xs = [])"
| "lodash_isEmpty (Obj kvs) = (kvs = [])"
| "lodash_isEmpty v = True"

text \<open>
  \<open>_.isEmpty\<close> of the whitelist option, a list of names that may be absent
  (\<open>undefined\<close>).
\<close>

fun isEmpty_names :: "string list option \<Rightarrow> bool" where
  "isEmpty_names None = True"
| "isEmpty_names (Some names) = (names = [])"

text \<open>
  \<open>_.pick(object, paths)\<close> walks the paths in their order and sets, in a new object,
  each one the object has (\<open>hasIn\<close>); setting a key twice keeps its first position.
  A path that is a key of the object is set to the value of the key. An object has
  more than its keys: the properties it inherits (\<open>toString\<close>, \<open>constructor\<close>) and,
  a path that is not a property name being read as a property path, what lies inside
  its values (\<open>architecture.length\<close>, the number of parameters of a function). What
  the object has at a path that is not one of its keys depends on the run-time system
  and is a parameter, \<open>other_paths\<close>: \<open>None\<close> when the object has nothing there,
  and otherwise the key that \<open>baseSet\<close> writes in the result (the path itself for an
  inherited property, its first segment for a deep path) with the value the result has
  under that key afterwards, given the value it has there before (\<open>None\<close> when it
  has none). \<open>_.values(object)\<close> lists the values in the order of the keys.
\<close>

definition lodash_pick ::
  "(string \<Rightarrow> (string \<times> ('p option \<Rightarrow> 'p)) option) \<Rightarrow> (string \<times> 'p) list \<Rightarrow> string list
     \<Rightarrow> (string \<times> 'p) list" where
  "lodash_pick other_paths object paths =
     foldl (\<lambda>result path.
              case map_of object path of
                Some v \<Rightarrow> AList.update path v result
              | None \<Rightarrow>
                  (case other_paths path of
                     Some (key, set_value) \<Rightarrow> AList.update key (set_value (map_of result key)) result
                   | None \<Rightarrow> result))
           [] paths"

definition lodash_values :: "(string \<times> 'p) list \<Rightarrow> 'p list" where
  "lodash_values object = map snd object"

text \<open>
  \<open>_.merge(object, source)\<close> visits the keys of the source in order. A source value
  that is an array or a plain object is merged recursively into the destination value
  when that is an array (for an array) or any object (for a plain object), and into a
  new empty array or object otherwise; any other source value is taken as it is. The
  value is then assigned, except that \<open>undefined\<close> never replaces a key the
  destination already has (\<open>assignMergeValue\<close>).

  \<open>mergeValue\<close> is the value a key ends with, from the destination's value
  (\<open>Undefined\<close> when the key is missing) and the source's; \<open>mergeFields\<close> merges
  the named keys of a source into those of a destination, \<open>mergeElems\<close> the elements
  of a source array into those of a destination array, index by index.
\<close>

definition getv :: "fields \<Rightarrow> string \<Rightarrow> js" where
  "getv object key = (case map_of object key of Some v \<Rightarrow> v | None \<Rightarrow> Undefined)"

definition assignMergeValue :: "fields \<Rightarrow> string \<Rightarrow> js \<Rightarrow> fields" where
  "assignMergeValue object key v =
     (if v = Undefined \<and> key \<in> fst ` set object then object
      else AList.update key v object)"

fun mergeValue :: "js \<Rightarrow> js \<Rightarrow> js"
  and mergeFields :: "fields \<Rightarrow> fields \<Rightarrow> fields"
  and mergeElems :: "js list \<Rightarrow> js list \<Rightarrow> js list" where
  "mergeValue objValue (Arr ys qs) =
     (case objValue of
        Arr xs ps \<Rightarrow> Arr (mergeElems xs ys) (mergeFields ps qs)
      | _ \<Rightarrow> Arr (mergeElems [] ys) (mergeFields [] qs))"
| "mergeValue objValue (Obj kvs) =
     (case objValue of
        Arr xs ps \<Rightarrow> Arr xs (mergeFields ps kvs)
      | Obj okvs \<Rightarrow> Obj (mergeFields okvs kvs)
      | _ \<Rightarrow> Obj (mergeFields [] kvs))"
| "mergeValue objValue Undefined = Undefined"
| "mergeValue objValue Null = Null"
| "mergeValue objValue (Bool b) = Bool b"
| "mergeValue objValue (Num n) = Num n"
| "mergeValue objValue (Str s) = Str s"
| "mergeFields object [] = object"
| "mergeFields object ((key, srcValue) # source) =
     mergeFields (assignMergeValue object key (mergeValue (getv object key) srcValue)) source"
| "mergeElems xs [] = xs"
| "mergeElems [] (y # ys) = mergeValue Undefined y # mergeElems [] ys"
| "mergeElems (x # xs) (y # ys) =
     (let v = mergeValue x y in if v = Undefined then x else v) # mergeElems xs ys"

text \<open>
  \<open>_.merge(accumulator, result)\<close> on two plain objects; it returns the destination,
  which it has changed in place.
\<close>

definition lodash_merge :: "fields \<Rightarrow> fields \<Rightarrow> fields" where
  "lodash_merge object source = mergeFields object source"

section \<open>The plugin registry and the plugin selector\<close>

text \<open>
  \<open>BUILTIN_PLUGINS\<close> of \<open>lib/index.js\<close>, key by key in the order of the object
  literal. The plugin modules are loaded with \<open>require\<close>, here a parameter that maps
  a module path to the plugin it exports.
\<close>

definition BUILTIN_PLUGINS :: "(string \<Rightarrow> 'p) \<Rightarrow> (string \<times> 'p) list" where
  "BUILTIN_PLUGINS require =
     [(''license'', require ''./plugins/license''),
      (''blog'', require ''./plugins/blog''),
      (''changelog'', require ''./plugins/changelog''),
      (''contributing'', require ''./plugins/contributing''),
      (''contributors'', require ''./plugins/contributors''),
      (''docs'', require ''./plugins/docs''),
      (''security'', require ''./plugins/security''),
      (''faq'', require ''./plugins/faq''),
      (''code-of-conduct'', require ''./plugins/code-of-conduct''),
      (''architecture'', require ''./plugins/architecture''),
      (''maintainers'', require ''./plugins/maintainers''),
      (''readme'', require ''./plugins/readme''),
      (''readme-sections'', require ''./plugins/readme-sections''),
      (''github-metadata'', require ''./plugins/github-metadata''),
      (''dependencies'', require ''./plugins/dependencies''),
      (''last-commit-date'', require ''./plugins/last-commit-date''),
      (''latest-release'', require ''./plugins/latest-release''),
      (''latest-prerelease'', require ''./plugins/latest-prerelease''),
      (''open-issues'', require ''./plugins/open-issues''),
      (''version'', require ''./plugins/version''),
      (''deployButtons'', require ''./plugins/deployButtons''),
      (''screenshot'', require ''./plugins/screenshot''),
      (''logo'', require ''./plugins/logo''),
      (''logoBrandMark'', require ''./plugins/logo-brandmark'')]"

text \<open>
  \<open>filterPlugins\<close>: the whole registry when the whitelist is empty or absent, the
  picked part of it otherwise; in both cases the values of the object. What the
  registry object has besides its keys is the parameter of \<open>_.pick\<close>.
\<close>

definition filterPlugins ::
  "(string \<Rightarrow> 'p) \<Rightarrow> (string \<Rightarrow> (string \<times> ('p option \<Rightarrow> 'p)) option) \<Rightarrow> string list option
     \<Rightarrow> 'p list" where
  "filterPlugins require other_paths pluginWhitelist =
     (let plugins = BUILTIN_PLUGINS require;
          plugins = (if \<not> isEmpty_names pluginWhitelist
                     then lodash_pick other_paths plugins
                            (case pluginWhitelist of Some names \<Rightarrow> names | None \<Rightarrow> [])
                     else plugins)
      in lodash_values plugins)"

section \<open>The world of a run\<close>

text \<open>
  What a run does besides computing its result is written to a trace, in order: the
  calls of the progress sink (with the percentage), the construction of a backend
  (with the identity of the new object and the two arguments of the constructor), the
  call of its \<open>init\<close>, the call of an extractor (with its index in the list and the
  backend it is given), the creation of a temporary directory and the clone of a
  repository into a directory. The world also holds the next object identity, the
  temporary directories that exist on disk and what the \<open>tmp\<close> module has registered
  for removal (its \<open>_removeObjects\<close>): the name of a directory, and whether it is to
  be removed with its contents (\<open>unsafeCleanup\<close>).
\<close>

datatype event =
    Progress nat
  | New nat string string
  | Init nat
  | Invoke nat nat
  | Mkdir string
  | Clone string string

record world =
  trace :: "event list"
  next_backend :: nat
  dirs :: "string list"
  removeObjects :: "(string \<times> bool) list"

definition emit :: "event \<Rightarrow> world \<Rightarrow> world" where
  "emit ev w = w\<lparr>trace := trace w @ [ev]\<rparr>"

section \<open>Backends, plugins and options\<close>

text \<open>
  A backend class (\<open>lib/backends/fs\<close>, \<open>lib/backends/github\<close>: not among the sources)
  is its constructor and the methods the engine and the extractors call; \<open>'b\<close> is
  the state of an instance and \<open>'e\<close> the type of the values thrown. \<open>init\<close> returns
  the instance as it is once initialised. An instance is the class with the state
  of the object, so that a method can be called on it. A plugin maps a backend
  instance to its partial result, a plain object, or fails.
\<close>

record ('b, 'e) backend_class =
  construct :: "string \<Rightarrow> string \<Rightarrow> 'e + 'b"
  init :: "'b \<Rightarrow> 'e + 'b"
  readFile :: "'b \<Rightarrow> string \<Rightarrow> 'e + js"

type_synonym ('b, 'e) backend_instance = "('b, 'e) backend_class \<times> 'b"

type_synonym ('b, 'e) plugin = "('b, 'e) backend_instance \<Rightarrow> 'e + fields"

definition call_readFile :: "('b, 'e) backend_instance \<Rightarrow> string \<Rightarrow> 'e + js" where
  "call_readFile bk path = readFile (fst bk) (snd bk) path"

text \<open>
  The options of the two entry points, and those of \<open>examineGitRepository\<close>. The
  progress sink is a caller's function: it may throw (\<open>Some e\<close>).
\<close>

record 'e common_options =
  reference :: string
  progress :: "(nat \<Rightarrow> 'e option) option"

record 'e options = "'e common_options" +
  whitelistPlugins :: "string list option"

record ('b, 'e) examine_options = "'e common_options" +
  repository :: string
  backend :: "('b, 'e) backend_class"
  plugins :: "('b, 'e) plugin list"
  accumulator :: fields

section \<open>The examination orchestrator\<close>

text \<open>
  \<open>Bluebird.reduce(array, reducer, initialValue)\<close>: the reducer is called on each
  element in turn, with the accumulator and the index, each call after the promise of
  the one before has resolved; the first rejection rejects the whole reduction.
\<close>

fun Bluebird_reduce ::
  "('a \<Rightarrow> 'x \<Rightarrow> nat \<Rightarrow> 'w \<Rightarrow> 'w \<times> ('e + 'a)) \<Rightarrow> 'x list \<Rightarrow> nat \<Rightarrow> 'a \<Rightarrow> 'w \<Rightarrow> 'w \<times> ('e + 'a)" where
  "Bluebird_reduce f [] index acc w = (w, Inr acc)"
| "Bluebird_reduce f (x # xs) index acc w =
     (case f acc x index w of
        (w', Inl e) \<Rightarrow> (w', Inl e)
      | (w', Inr acc') \<Rightarrow> Bluebird_reduce f xs (Suc index) acc' w')"

text \<open>
  The percentage \<open>Math.floor(index * 100 / options.plugins.length)\<close>: both operands
  are small natural numbers, on which the floor of the floating-point quotient is the
  integer quotient.
\<close>

definition percentage :: "('b, 'e) examine_options \<Rightarrow> nat \<Rightarrow> nat" where
  "percentage options index = index * 100 div length (plugins options)"

definition report_progress ::
  "('b, 'e) examine_options \<Rightarrow> nat \<Rightarrow> world \<Rightarrow> world \<times> 'e option" where
  "report_progress options index w =
     (case progress options of
        None \<Rightarrow> (w, None)
      | Some sink \<Rightarrow> (emit (Progress (percentage options index)) w,
                      sink (percentage options index)))"

text \<open>The function \<open>examineGitRepository\<close> hands to \<open>Bluebird.reduce\<close>.\<close>

definition reducer ::
  "('b, 'e) examine_options \<Rightarrow> fields \<Rightarrow> ('b, 'e) plugin \<Rightarrow> nat \<Rightarrow> world \<Rightarrow> world \<times> ('e + fields)" where
  "reducer options acc plugin index w =
     (case report_progress options index w of
        (w1, Some e) \<Rightarrow> (w1, Inl e)
      | (w1, None) \<Rightarrow>
          (let ident = next_backend w1;
               w2 = emit (New ident (repository options) (reference options))
                      (w1\<lparr>next_backend := Suc ident\<rparr>)
           in (case construct (backend options) (repository options) (reference options) of
                 Inl e \<Rightarrow> (w2, Inl e)
               | Inr b \<Rightarrow>
                   (let w3 = emit (Init ident) w2
                    in (case init (backend options) b of
                          Inl e \<Rightarrow> (w3, Inl e)
                        | Inr b' \<Rightarrow>
                            (let w4 = emit (Invoke index ident) w3
                             in (case plugin (backend options, b') of
                                   Inl e \<Rightarrow> (w4, Inl e)
                                 | Inr result \<Rightarrow> (w4, Inr (lodash_merge acc result)))))))))"

definition examineGitRepository ::
  "('b, 'e) examine_options \<Rightarrow> world \<Rightarrow> world \<times> ('e + fields)" where
  "examineGitRepository options w =
     Bluebird_reduce (reducer options) (plugins options) 0 (accumulator options) w"

section \<open>The two extractors among the sources\<close>

text \<open>
  \<open>String.prototype.trim\<close> on a string of ASCII characters: the white space and the
  line terminators at both ends are removed.
\<close>

definition isWhiteSpace :: "char \<Rightarrow> bool" where
  "isWhiteSpace c = (c \<in> {CHR 0x09, CHR 0x0A, CHR 0x0B, CHR 0x0C, CHR 0x0D, CHR '' ''})"

definition trim :: "string \<Rightarrow> string" where
  "trim s = rev (dropWhile isWhiteSpace (rev (dropWhile isWhiteSpace s)))"

text \<open>
  The architecture plugin. Both files are read first (\<open>Bluebird.props\<close>); then the
  first is converted, and the second only when the first gives nothing
  (\<open>||\<close> evaluates its right operand only when the left one is falsy, and of two
  strings only the empty one is). \<open>convertHtmlToMD\<close> (\<open>lib/utils/markdown\<close>, not
  among the sources) is a parameter: the \<open>contents\<close> of what it resolves to.
  \<open>path.join('docs', 'ARCHITECTURE.md')\<close> is the path with a slash.
\<close>

definition architecture :: "(js \<Rightarrow> 'e + string) \<Rightarrow> ('b, 'e) plugin" where
  "architecture convertHtmlToMD bk =
     (case call_readFile bk ''ARCHITECTURE.md'' of
        Inl e \<Rightarrow> Inl e
      | Inr file_architecture \<Rightarrow>
          (case call_readFile bk ''docs/ARCHITECTURE.md'' of
             Inl e \<Rightarrow> Inl e
           | Inr file_docsArchitecture \<Rightarrow>
               (case convertHtmlToMD file_architecture of
                  Inl e \<Rightarrow> Inl e
                | Inr contents1 \<Rightarrow>
                    if trim contents1 \<noteq> []
                    then Inr [(''architecture'', Str (trim contents1))]
                    else (case convertHtmlToMD file_docsArchitecture of
                            Inl e \<Rightarrow> Inl e
                          | Inr contents2 \<Rightarrow>
                              if trim contents2 \<noteq> []
                              then Inr [(''architecture'', Str (trim contents2))]
                              else Inr [(''architecture'', Null)]))))"

text \<open>
  The changelog plugin, the module the registry loads as \<open>./plugins/changelog\<close>
  (the callback given to the inner \<open>then\<close> is read as closed by \<open>})\<close>). The
  test inside the fallback is on \<open>contents\<close>, as the source has it.
  \<open>yaml.safeLoad\<close> is a parameter.
\<close>

definition changelog :: "(js \<Rightarrow> 'e + js) \<Rightarrow> ('b, 'e) plugin" where
  "changelog safeLoad bk =
     (case call_readFile bk ''.versionbot/CHANGELOG.yml'' of
        Inl e \<Rightarrow> Inl e
      | Inr contents \<Rightarrow>
          if lodash_isEmpty contents
          then (case call_readFile bk ''CHANGELOG.md'' of
                  Inl e \<Rightarrow> Inl e
                | Inr markdown \<Rightarrow>
                    if lodash_isEmpty contents
                    then Inr [(''changelog'', Arr [] [])]
                    else Inr [(''changelog'', markdown)])
          else (case safeLoad contents of
                  Inl e \<Rightarrow> Inl e
                | Inr changelog_value \<Rightarrow> Inr [(''changelog'', changelog_value)]))"

section \<open>The entry points\<close>

text \<open>
  What the module gets from outside: the name in \<open>package.json\<close>, the two backend
  classes, the plugins that are not among the sources (by module path), what the
  registry object has besides its keys, the two converters, and the outcome of
  creating a temporary directory (the name, given the prefix asked for and the
  directories that exist) and of a clone.
\<close>

record ('b, 'e) modules =
  packageJSON_name :: string
  fs :: "('b, 'e) backend_class"
  github :: "('b, 'e) backend_class"
  other_plugins :: "string \<Rightarrow> ('b, 'e) plugin"
  registry_paths :: "string \<Rightarrow> (string \<times> (('b, 'e) plugin option \<Rightarrow> ('b, 'e) plugin)) option"
  convertHtmlToMD_module :: "js \<Rightarrow> 'e + string"
  yaml_safeLoad :: "js \<Rightarrow> 'e + js"
  tmp_dir :: "string \<Rightarrow> string list \<Rightarrow> 'e + string"
  git_clone :: "string \<Rightarrow> string \<Rightarrow> 'e option"

definition require_plugin :: "('b, 'e) modules \<Rightarrow> string \<Rightarrow> ('b, 'e) plugin" where
  "require_plugin m path =
     (if path = ''./plugins/changelog'' then changelog (yaml_safeLoad m)
      else if path = ''./plugins/architecture'' then architecture (convertHtmlToMD_module m)
      else other_plugins m path)"

definition remote ::
  "('b, 'e) modules \<Rightarrow> string \<Rightarrow> 'e options \<Rightarrow> world \<Rightarrow> world \<times> ('e + fields)" where
  "remote m gitRepository options w =
     examineGitRepository
       \<lparr>reference = reference options,
        progress = progress options,
        repository = gitRepository,
        backend = github m,
        plugins = filterPlugins (require_plugin m) (registry_paths m) (whitelistPlugins options),
        accumulator = []\<rparr> w"

text \<open>
  \<open>tmp.dirAsync(options)\<close> creates the directory and puts its removal first in the
  list of what the module removes when its handler of the process's \<open>exit\<close> event
  runs (\<open>tmp.setGracefulCleanup()\<close>, line 29, makes that handler remove them after
  an uncaught exception too); the promise resolves to the name alone (the removal
  callback, the second result of \<open>tmp.dir\<close>, is dropped by \<open>promisifyAll\<close>).
  The exit of the process is not part of a run.
  \<open>git().clone(...).then(_.constant(temporaryDirectory))\<close> resolves to the directory.
\<close>

record tmp_options =
  unsafeCleanup :: bool
  prefix :: string

definition tmp_dirAsync ::
  "('b, 'e) modules \<Rightarrow> tmp_options \<Rightarrow> world \<Rightarrow> world \<times> ('e + string)" where
  "tmp_dirAsync m options w =
     (case tmp_dir m (prefix options) (dirs w) of
        Inl e \<Rightarrow> (w, Inl e)
      | Inr name \<Rightarrow>
          (emit (Mkdir name)
             (w\<lparr>dirs := name # dirs w,
                removeObjects := (name, unsafeCleanup options) # removeObjects w\<rparr>),
           Inr name))"

definition clone_into ::
  "('b, 'e) modules \<Rightarrow> string \<Rightarrow> string \<Rightarrow> world \<Rightarrow> world \<times> ('e + string)" where
  "clone_into m gitRepository temporaryDirectory w =
     (case git_clone m gitRepository temporaryDirectory of
        Some e \<Rightarrow> (emit (Clone gitRepository temporaryDirectory) w, Inl e)
      | None \<Rightarrow> (emit (Clone gitRepository temporaryDirectory) w, Inr temporaryDirectory))"

definition local ::
  "('b, 'e) modules \<Rightarrow> string \<Rightarrow> 'e options \<Rightarrow> world \<Rightarrow> world \<times> ('e + fields)" where
  "local m gitRepository options w =
     (case tmp_dirAsync m \<lparr>unsafeCleanup = True, prefix = packageJSON_name m @ ''_''\<rparr> w of
        (w1, Inl e) \<Rightarrow> (w1, Inl e)
      | (w1, Inr temporaryDirectory) \<Rightarrow>
          (case clone_into m gitRepository temporaryDirectory w1 of
             (w2, Inl e) \<Rightarrow> (w2, Inl e)
           | (w2, Inr temporaryRepository) \<Rightarrow>
               examineGitRepository
                 \<lparr>reference = reference options,
                  progress = progress options,
                  repository = temporaryRepository,
                  backend = fs m,
                  plugins = filterPlugins (require_plugin m) (registry_paths m)
                              (whitelistPlugins options),
                  accumulator = []\<rparr> w2))"

section \<open>Observations of a run\<close>

text \<open>
  What the statements below say about a run is said with these functions; none of them
  is part of the program. \<open>sink_throws\<close> is what the call of the progress sink
  before the extractor at an index throws, if there is a sink and it throws.
  \<open>attempt\<close> is the partial result of an extractor in a run, or the error of the
  first of the three steps that fails: the construction of the backend, its \<open>init\<close>,
  the extractor.
\<close>

definition sink_throws :: "('b, 'e) examine_options \<Rightarrow> nat \<Rightarrow> 'e option" where
  "sink_throws options index =
     (case progress options of None \<Rightarrow> None | Some sink \<Rightarrow> sink (percentage options index))"

definition attempt :: "('b, 'e) examine_options \<Rightarrow> ('b, 'e) plugin \<Rightarrow> 'e + fields" where
  "attempt options plugin =
     (case construct (backend options) (repository options) (reference options) of
        Inl e \<Rightarrow> Inl e
      | Inr b \<Rightarrow>
          (case init (backend options) b of
             Inl e \<Rightarrow> Inl e
           | Inr b' \<Rightarrow> plugin (backend options, b')))"




text \<open>
  The events of one complete step of the reduction, for the extractor at \<open>index\<close> and
  the backend \<open>ident\<close>, and those of \<open>m\<close> complete steps in a row.
\<close>

definition step_events :: "('b, 'e) examine_options \<Rightarrow> nat \<Rightarrow> nat \<Rightarrow> event list" where
  "step_events options index ident =
     (case progress options of None \<Rightarrow> [] | Some sink \<Rightarrow> [Progress (percentage options index)])
     @ [New ident (repository options) (reference options), Init ident, Invoke index ident]"

fun run_events :: "('b, 'e) examine_options \<Rightarrow> nat \<Rightarrow> nat \<Rightarrow> nat \<Rightarrow> event list" where
  "run_events options index ident 0 = []"
| "run_events options index ident (Suc m) =
     step_events options index ident @ run_events options (Suc index) (Suc ident) m"

text \<open>
  The percentages a trace reports to the sink, in order; the backend an event is about;
  the scalars of JSON.
\<close>

fun reported :: "event list \<Rightarrow> nat list" where
  "reported [] = []"
| "reported (Progress p # evs) = p # reported evs"
| "reported (ev # evs) = reported evs"

fun backend_of :: "event \<Rightarrow> nat option" where
  "backend_of (New ident r f) = Some ident"
| "backend_of (Init ident) = Some ident"
| "backend_of (Invoke index ident) = Some ident"
| "backend_of ev = None"


section \<open>Example runs\<close>

text \<open>
  Concrete inputs for the instances below. A backend that never fails and serves a
  fixed set of files (a file that does not exist reads as the empty string); a world in
  which nothing has happened; a run of two extractors that both succeed, and a run of
  three whose second fails; a registry object that inherits \<open>toString\<close> and has
  nothing else besides its keys; a module environment whose repository holds a
  \<open>CHANGELOG.md\<close> and nothing else, whose other plugins find nothing, whose
  converters return their input, and in which calling what the registry inherits as
  \<open>toString\<close> as a plugin fails (\<open>Object.prototype.toString\<close> returns a string,
  which has no \<open>then\<close>); a backend that keeps the directory it is constructed for,
  and a module environment with that backend in which every temporary directory gets a
  new name.
\<close>

definition static_backend :: "(string \<Rightarrow> js) \<Rightarrow> (unit, string) backend_class" where
  "static_backend files =
     \<lparr>construct = (\<lambda>repository reference. Inr ()),
      init = (\<lambda>b. Inr b),
      readFile = (\<lambda>b path. Inr (files path))\<rparr>"

definition world0 :: world where
  "world0 = \<lparr>trace = [], next_backend = 0, dirs = [], removeObjects = []\<rparr>"

definition inherits_toString :: "'p \<Rightarrow> string \<Rightarrow> (string \<times> ('p option \<Rightarrow> 'p)) option" where
  "inherits_toString v path =
     (if path = ''toString'' then Some (''toString'', \<lambda>current. v) else None)"

definition two_plugins :: "(unit, string) examine_options" where
  "two_plugins =
     \<lparr>reference = ''master'',
      progress = Some (\<lambda>percent. None),
      repository = ''resin-io/etcher'',
      backend = static_backend (\<lambda>path. Str ''''),
      plugins =
        [\<lambda>bk. Inr [(''tags'', Arr [Str ''a'', Str ''b'', Str ''c''] []), (''stars'', Num 1)],
         \<lambda>bk. Inr [(''tags'', Arr [Str ''z''] []), (''stars'', Num 2)]],
      accumulator = []\<rparr>"

definition second_fails :: "(unit, string) examine_options" where
  "second_fails =
     \<lparr>reference = ''master'',
      progress = Some (\<lambda>percent. None),
      repository = ''resin-io/etcher'',
      backend = static_backend (\<lambda>path. Str ''''),
      plugins =
        [\<lambda>bk. Inr [(''stars'', Num 1)],
         \<lambda>bk. Inl ''rate limit exceeded'',
         \<lambda>bk. Inr [(''stars'', Num 3)]],
      accumulator = []\<rparr>"

definition example_files :: "string \<Rightarrow> js" where
  "example_files path = (if path = ''CHANGELOG.md'' then Str ''# v1.0.0'' else Str '''')"

definition example_modules :: "(unit, string) modules" where
  "example_modules =
     \<lparr>packageJSON_name = ''scrutinizer'',
      fs = static_backend example_files,
      github = static_backend example_files,
      other_plugins = (\<lambda>path bk. Inr []),
      registry_paths = inherits_toString (\<lambda>bk. Inl ''TypeError: plugin(...).then is not a function''),
      convertHtmlToMD_module = (\<lambda>file. case file of Str s \<Rightarrow> Inr s | _ \<Rightarrow> Inr ''''),
      yaml_safeLoad = (\<lambda>contents. Inr contents),
      tmp_dir = (\<lambda>name_prefix existing. Inr (''/tmp/'' @ name_prefix @ ''1'')),
      git_clone = (\<lambda>source destination. None)\<rparr>"



definition example_options :: "string list option \<Rightarrow> string options" where
  "example_options whitelist =
     \<lparr>reference = ''master'', progress = Some (\<lambda>percent. None), whitelistPlugins = whitelist\<rparr>"

lemmas run_simps = reducer_def report_progress_def emit_def percentage_def Let_def
  lodash_merge_def assignMergeValue_def getv_def

section \<open>The plugin selector: what a whitelist selects\<close>

lemma update_fresh: "k \<notin> fst ` set al \<Longrightarrow> AList.update k v al = al @ [(k, v)]"
  by (induction al) auto

lemma lodash_pick_snoc:
  "lodash_pick other_paths object (paths @ [p]) =
     (case map_of object p of
        Some v \<Rightarrow> AList.update p v (lodash_pick other_paths object paths)
      | None \<Rightarrow>
          (case other_paths p of
             Some (key, set_value) \<Rightarrow>
               AList.update key (set_value (map_of (lodash_pick other_paths object paths) key))
                 (lodash_pick other_paths object paths)
           | None \<Rightarrow> lodash_pick other_paths object paths))"
  by (simp add: lodash_pick_def split: option.split prod.split)

text \<open>
  When the object has nothing at the paths that are not its keys, the picked object
  has the paths that are keys, each once, in the order of their first occurrence among
  the paths.
\<close>

lemma lodash_pick_eq:
  assumes "\<forall>p\<in>set paths. p \<notin> fst ` set object \<longrightarrow> other_paths p = None"
  shows "lodash_pick other_paths object paths =
     map (\<lambda>p. (p, the (map_of object p)))
       (rev (remdups (rev (filter (\<lambda>p. p \<in> fst ` set object) paths))))"
  using assms
proof (induction paths rule: rev_induct)
  case Nil
  show ?case by (simp add: lodash_pick_def)
next
  case (snoc p paths)
  let ?sel = "rev (remdups (rev (filter (\<lambda>p. p \<in> fst ` set object) paths)))"
  from snoc.prems have "\<forall>p\<in>set paths. p \<notin> fst ` set object \<longrightarrow> other_paths p = None"
    by simp
  note IH = snoc.IH [OF this]
  show ?case
  proof (cases "map_of object p")
    case None
    then have "p \<notin> fst ` set object" by (simp add: map_of_eq_None_iff)
    moreover from this snoc.prems have "other_paths p = None" by simp
    ultimately show ?thesis using None IH by (simp add: lodash_pick_snoc)
  next
    case (Some v)
    then have mem: "p \<in> fst ` set object" by (metis map_of_eq_None_iff option.distinct(1))
    show ?thesis
    proof (cases "p \<in> set paths")
      case True
      with mem have "p \<in> set ?sel" by simp
      then have "map_of (lodash_pick other_paths object paths) p = Some v"
        using Some by (simp add: IH map_of_map_restrict o_def)
      then have "AList.update p v (lodash_pick other_paths object paths)
          = lodash_pick other_paths object paths"
        by (rule AList.update_triv)
      with Some True mem IH show ?thesis by (simp add: lodash_pick_snoc)
    next
      case False
      then have "p \<notin> fst ` set (lodash_pick other_paths object paths)"
        by (auto simp: IH)
      then have "AList.update p v (lodash_pick other_paths object paths)
          = lodash_pick other_paths object paths @ [(p, v)]"
        by (rule update_fresh)
      with Some False mem IH show ?thesis by (simp add: lodash_pick_snoc)
    qed
  qed
qed

lemma first_occurrences_filter:
  "rev (remdups (rev (filter P xs))) = filter P (rev (remdups (rev xs)))"
  by (simp add: rev_filter remdups_filter)

lemma filterPlugins_nonempty:
  assumes "whitelist \<noteq> []"
    and "\<forall>name\<in>set whitelist.
           name \<notin> fst ` set (BUILTIN_PLUGINS require) \<longrightarrow> other_paths name = None"
  shows "filterPlugins require other_paths (Some whitelist) =
     List.map_filter (map_of (BUILTIN_PLUGINS require)) (rev (remdups (rev whitelist)))"
  using assms(1)
  by (simp add: filterPlugins_def Let_def lodash_values_def lodash_pick_eq [OF assms(2)]
        first_occurrences_filter List.map_filter_def o_def map_of_eq_None_iff)

lemma filterPlugins_unregistered:
  assumes "whitelist \<noteq> []"
    and "set whitelist \<inter> fst ` set (BUILTIN_PLUGINS require) = {}"
    and "\<forall>name\<in>set whitelist. other_paths name = None"
  shows "filterPlugins require other_paths (Some whitelist) = []"
proof -
  have "filter (\<lambda>p. p \<in> fst ` set (BUILTIN_PLUGINS require)) whitelist = []"
    using assms(2) by (auto simp: filter_empty_conv)
  moreover have "\<forall>name\<in>set whitelist.
      name \<notin> fst ` set (BUILTIN_PLUGINS require) \<longrightarrow> other_paths name = None"
    using assms(3) by simp
  ultimately show ?thesis
    using assms(1) by (simp add: filterPlugins_def Let_def lodash_values_def lodash_pick_eq)
qed

text \<open>
  Claim C3, as the code has it. With no whitelist or an empty one the selector returns every
  registered extractor in the order of the registry. With a non-empty whitelist each
  of whose names is a key of the registry or a path at which the registry object has
  nothing, it returns the extractors the whitelist names that are registered, each
  once, in the order in which the whitelist first names them
  (\<open>rev (remdups (rev whitelist))\<close> keeps the first occurrence of each name); a name
  that is not registered is dropped.
\<close>

theorem filterPlugins_whitelist_order:
  "filterPlugins require other_paths None = map snd (BUILTIN_PLUGINS require) \<and>
   filterPlugins require other_paths (Some []) = map snd (BUILTIN_PLUGINS require) \<and>
   (whitelist \<noteq> []
      \<and> (\<forall>name\<in>set whitelist.
            name \<notin> fst ` set (BUILTIN_PLUGINS require) \<longrightarrow> other_paths name = None)
    \<longrightarrow> filterPlugins require other_paths (Some whitelist) =
          List.map_filter (map_of (BUILTIN_PLUGINS require)) (rev (remdups (rev whitelist))))"
proof -
  have "filterPlugins require other_paths None = map snd (BUILTIN_PLUGINS require)"
    by (simp add: filterPlugins_def lodash_values_def)
  moreover have "filterPlugins require other_paths (Some []) = map snd (BUILTIN_PLUGINS require)"
    by (simp add: filterPlugins_def lodash_values_def)
  ultimately show ?thesis
    using filterPlugins_nonempty [of whitelist require other_paths] by blast
qed

text \<open>
  An instance: with each plugin standing for its module path, and a registry object
  that inherits \<open>toString\<close>, a whitelist that names \<open>readme\<close> twice, an unknown
  name and \<open>license\<close> selects \<open>readme\<close>, then \<open>license\<close>.
\<close>

theorem filterPlugins_whitelist_order_witness:
  "[''readme'', ''nope'', ''license'', ''readme''] \<noteq> ([] :: string list)
   \<and> inherits_toString ''Object.prototype.toString'' ''nope'' = None
   \<and> filterPlugins id (inherits_toString ''Object.prototype.toString'')
       (Some [''readme'', ''nope'', ''license'', ''readme''])
     = [''./plugins/readme'', ''./plugins/license'']"
proof -
  let ?wl = "[''readme'', ''nope'', ''license'', ''readme'']"
  let ?other = "inherits_toString ''Object.prototype.toString''"
  have h1: "?wl \<noteq> ([] :: string list)" by simp
  have h2: "?other ''nope'' = None" by (simp add: inherits_toString_def)
  have "\<forall>name\<in>set ?wl. name \<notin> fst ` set (BUILTIN_PLUGINS id) \<longrightarrow> ?other name = None"
    by (simp add: inherits_toString_def)
  with h1 filterPlugins_whitelist_order [of id ?other ?wl]
  have "filterPlugins id ?other (Some ?wl)
      = List.map_filter (map_of (BUILTIN_PLUGINS id)) (rev (remdups (rev ?wl)))"
    by blast
  then have c: "filterPlugins id ?other (Some ?wl) = [''./plugins/readme'', ''./plugins/license'']"
    by (simp add: BUILTIN_PLUGINS_def List.map_filter_def)
  show ?thesis
    by (intro conjI h1 h2 c)
qed

text \<open>
  The order is not the registry's: \<open>license\<close> is registered before \<open>readme\<close>, and the
  whitelist \<open>readme\<close>, \<open>license\<close> selects \<open>readme\<close> first (the right-hand side is the
  selection in the order of the registry). And a name that is not registered is not
  always dropped: \<open>toString\<close> is no key of the registry, and the whitelist
  \<open>toString\<close>, \<open>license\<close> selects what the registry object inherits under that name,
  then \<open>license\<close>.
\<close>

theorem filterPlugins_canonical_order_counterexample:
  "filterPlugins id (inherits_toString ''Object.prototype.toString'') (Some [''readme'', ''license''])
   \<noteq> map snd (filter (\<lambda>(name, plugin). name \<in> set [''readme'', ''license''])
                (BUILTIN_PLUGINS id))
   \<and> ''toString'' \<notin> fst ` set (BUILTIN_PLUGINS (id :: string \<Rightarrow> string))
   \<and> filterPlugins id (inherits_toString ''Object.prototype.toString'')
       (Some [''toString'', ''license''])
     = [''Object.prototype.toString'', ''./plugins/license'']"
  by (simp add: filterPlugins_def lodash_pick_def lodash_values_def BUILTIN_PLUGINS_def
        inherits_toString_def)

section \<open>The reduction, step by step\<close>

text \<open>
  The outcome of one call of the reducer does not depend on the world; its events are
  the events of a complete step when it resolves, and the first few of them, at least
  one, in any case.
\<close>

lemma reducer_snd:
  "snd (reducer options acc plugin index w) =
     (case sink_throws options index of
        Some e \<Rightarrow> Inl e
      | None \<Rightarrow> (case attempt options plugin of
                   Inl e \<Rightarrow> Inl e
                 | Inr result \<Rightarrow> Inr (lodash_merge acc result)))"
  by (simp add: reducer_def report_progress_def sink_throws_def attempt_def Let_def
           split: option.split sum.split)

lemma reducer_resolved:
  assumes "snd (reducer options acc plugin index w) = Inr a"
  shows "fst (reducer options acc plugin index w) =
           w\<lparr>trace := trace w @ step_events options index (next_backend w),
             next_backend := Suc (next_backend w)\<rparr>"
  using assms
  by (auto simp: reducer_def report_progress_def step_events_def emit_def Let_def
           split: option.splits sum.splits)

lemma reducer_trace:
  "\<exists>tail rest nb. fst (reducer options acc plugin index w) =
           w\<lparr>trace := trace w @ tail, next_backend := nb\<rparr>
         \<and> tail \<noteq> [] \<and> step_events options index (next_backend w) = tail @ rest"
proof (cases "progress options")
  case None
  note sink = this
  let ?N = "New (next_backend w) (repository options) (reference options)"
  let ?I = "Init (next_backend w)"
  let ?V = "Invoke index (next_backend w)"
  show ?thesis
  proof (cases "construct (backend options) (repository options) (reference options)")
    case (Inl e1)
    have "fst (reducer options acc plugin index w) =
            w\<lparr>trace := trace w @ [?N], next_backend := Suc (next_backend w)\<rparr>"
      using sink Inl by (simp add: reducer_def report_progress_def emit_def Let_def)
    moreover have "step_events options index (next_backend w) = [?N] @ [?I, ?V]"
      using sink by (simp add: step_events_def)
    ultimately show ?thesis by blast
  next
    case (Inr b)
    note con = this
    show ?thesis
    proof (cases "init (backend options) b")
      case (Inl e1)
      have "fst (reducer options acc plugin index w) =
              w\<lparr>trace := trace w @ [?N, ?I], next_backend := Suc (next_backend w)\<rparr>"
        using sink con Inl by (simp add: reducer_def report_progress_def emit_def Let_def)
      moreover have "step_events options index (next_backend w) = [?N, ?I] @ [?V]"
        using sink by (simp add: step_events_def)
      ultimately show ?thesis by blast
    next
      case (Inr b')
      have "fst (reducer options acc plugin index w) =
              w\<lparr>trace := trace w @ [?N, ?I, ?V], next_backend := Suc (next_backend w)\<rparr>"
        using sink con Inr
        by (simp add: reducer_def report_progress_def emit_def Let_def split: sum.split)
      moreover have "step_events options index (next_backend w) = [?N, ?I, ?V] @ []"
        using sink by (simp add: step_events_def)
      ultimately show ?thesis by blast
    qed
  qed
next
  case (Some sink)
  note sink = this
  let ?P = "Progress (percentage options index)"
  let ?N = "New (next_backend w) (repository options) (reference options)"
  let ?I = "Init (next_backend w)"
  let ?V = "Invoke index (next_backend w)"
  show ?thesis
  proof (cases "sink (percentage options index)")
    case (Some e1)
    have "fst (reducer options acc plugin index w) =
            w\<lparr>trace := trace w @ [?P], next_backend := next_backend w\<rparr>"
      using sink Some by (simp add: reducer_def report_progress_def emit_def Let_def)
    moreover have "step_events options index (next_backend w) = [?P] @ [?N, ?I, ?V]"
      using sink by (simp add: step_events_def)
    ultimately show ?thesis by blast
  next
    case None
    note silent = this
    show ?thesis
    proof (cases "construct (backend options) (repository options) (reference options)")
      case (Inl e1)
      have "fst (reducer options acc plugin index w) =
              w\<lparr>trace := trace w @ [?P, ?N], next_backend := Suc (next_backend w)\<rparr>"
        using sink silent Inl by (simp add: reducer_def report_progress_def emit_def Let_def)
      moreover have "step_events options index (next_backend w) = [?P, ?N] @ [?I, ?V]"
        using sink by (simp add: step_events_def)
      ultimately show ?thesis by blast
    next
      case (Inr b)
      note con = this
      show ?thesis
      proof (cases "init (backend options) b")
        case (Inl e1)
        have "fst (reducer options acc plugin index w) =
                w\<lparr>trace := trace w @ [?P, ?N, ?I], next_backend := Suc (next_backend w)\<rparr>"
          using sink silent con Inl by (simp add: reducer_def report_progress_def emit_def Let_def)
        moreover have "step_events options index (next_backend w) = [?P, ?N, ?I] @ [?V]"
          using sink by (simp add: step_events_def)
        ultimately show ?thesis by blast
      next
        case (Inr b')
        have "fst (reducer options acc plugin index w) =
                w\<lparr>trace := trace w @ [?P, ?N, ?I, ?V], next_backend := Suc (next_backend w)\<rparr>"
          using sink silent con Inr
          by (simp add: reducer_def report_progress_def emit_def Let_def split: sum.split)
        moreover have "step_events options index (next_backend w) = [?P, ?N, ?I, ?V] @ []"
          using sink by (simp add: step_events_def)
        ultimately show ?thesis by blast
      qed
    qed
  qed
qed

text \<open>
  A reduction over a list is the reduction over a first part followed by the reduction
  over the rest; one that rejects has passed a first part and rejected at the element
  after it; one that resolves has merged the partial results of all its extractors.
\<close>

lemma reduce_append:
  "Bluebird_reduce f (xs @ ys) i a w =
     (case Bluebird_reduce f xs i a w of
        (w', Inl e) \<Rightarrow> (w', Inl e)
      | (w', Inr a') \<Rightarrow> Bluebird_reduce f ys (i + length xs) a' w')"
  by (induction xs arbitrary: i a w) (auto split: prod.splits sum.splits)

lemma reduce_rejected:
  "Bluebird_reduce f ps i a w = (w', Inl e) \<Longrightarrow>
   \<exists>k wk ak. k < length ps \<and> Bluebird_reduce f (take k ps) i a w = (wk, Inr ak)
             \<and> f ak (ps ! k) (i + k) wk = (w', Inl e)"
proof (induction ps arbitrary: i a w)
  case Nil
  then show ?case by simp
next
  case (Cons p ps)
  obtain w1 r1 where step: "f a p i w = (w1, r1)" by (cases "f a p i w")
  show ?case
  proof (cases r1)
    case (Inl e1)
    with step Cons.prems have "f a p i w = (w', Inl e)" by simp
    then have "0 < length (p # ps) \<and> Bluebird_reduce f (take 0 (p # ps)) i a w = (w, Inr a)
               \<and> f a ((p # ps) ! 0) (i + 0) w = (w', Inl e)" by simp
    then show ?thesis by blast
  next
    case (Inr a1)
    with step Cons.prems have "Bluebird_reduce f ps (Suc i) a1 w1 = (w', Inl e)" by simp
    from Cons.IH [OF this] obtain k wk ak where
      k: "k < length ps" "Bluebird_reduce f (take k ps) (Suc i) a1 w1 = (wk, Inr ak)"
         "f ak (ps ! k) (Suc i + k) wk = (w', Inl e)" by blast
    have "Suc k < length (p # ps) \<and> Bluebird_reduce f (take (Suc k) (p # ps)) i a w = (wk, Inr ak)
          \<and> f ak ((p # ps) ! Suc k) (i + Suc k) wk = (w', Inl e)"
      using k step Inr by simp
    then show ?thesis by blast
  qed
qed

lemma reduce_resolved_world:
  "Bluebird_reduce (reducer options) ps index acc w = (w', Inr a) \<Longrightarrow>
   w' = w\<lparr>trace := trace w @ run_events options index (next_backend w) (length ps),
          next_backend := next_backend w + length ps\<rparr>"
proof (induction ps arbitrary: index acc w)
  case Nil
  then show ?case by simp
next
  case (Cons p ps)
  obtain w1 r1 where step: "reducer options acc p index w = (w1, r1)"
    by (cases "reducer options acc p index w")
  with Cons.prems obtain a1 where r1: "r1 = Inr a1" by (cases r1) auto
  from step r1 have "snd (reducer options acc p index w) = Inr a1" by simp
  from reducer_resolved [OF this] step
  have w1: "w1 = w\<lparr>trace := trace w @ step_events options index (next_backend w),
                    next_backend := Suc (next_backend w)\<rparr>" by simp
  from step r1 Cons.prems have "Bluebird_reduce (reducer options) ps (Suc index) a1 w1 = (w', Inr a)"
    by simp
  from Cons.IH [OF this] show ?case by (simp add: w1)
qed




text \<open>
  The events of one call of the reducer, from the answers of the sink, of the
  constructor and of \<open>init\<close>: an extractor is called only when a backend has been
  constructed and its \<open>init\<close> has resolved.
\<close>

lemma reducer_events:
  "trace (fst (reducer options acc plugin index w)) =
     trace w
     @ (case progress options of
          None \<Rightarrow> []
        | Some sink \<Rightarrow> [Progress (percentage options index)])
     @ (case sink_throws options index of
          Some e \<Rightarrow> []
        | None \<Rightarrow>
            New (next_backend w) (repository options) (reference options)
            # (case construct (backend options) (repository options) (reference options) of
                 Inl e \<Rightarrow> []
               | Inr b \<Rightarrow>
                   Init (next_backend w)
                   # (case init (backend options) b of
                        Inl e \<Rightarrow> []
                      | Inr b' \<Rightarrow> [Invoke index (next_backend w)])))"
  by (simp add: reducer_def report_progress_def sink_throws_def emit_def Let_def
           split: option.split sum.split)

lemma reducer_invokes:
  "\<exists>tail. trace (fst (reducer options acc plugin index w)) = trace w @ tail
     \<and> (\<forall>j ident. Invoke j ident \<in> set tail \<longrightarrow>
           (\<exists>b b'. construct (backend options) (repository options) (reference options) = Inr b
                  \<and> init (backend options) b = Inr b'))"
proof -
  define tail where "tail =
     (case progress options of
          None \<Rightarrow> []
        | Some sink \<Rightarrow> [Progress (percentage options index)])
     @ (case sink_throws options index of
          Some e \<Rightarrow> []
        | None \<Rightarrow>
            New (next_backend w) (repository options) (reference options)
            # (case construct (backend options) (repository options) (reference options) of
                 Inl e \<Rightarrow> []
               | Inr b \<Rightarrow>
                   Init (next_backend w)
                   # (case init (backend options) b of
                        Inl e \<Rightarrow> []
                      | Inr b' \<Rightarrow> [Invoke index (next_backend w)])))"
  have a: "trace (fst (reducer options acc plugin index w)) = trace w @ tail"
    unfolding tail_def by (rule reducer_events)
  have b: "\<forall>j ident. Invoke j ident \<in> set tail \<longrightarrow>
           (\<exists>b b'. construct (backend options) (repository options) (reference options) = Inr b
                  \<and> init (backend options) b = Inr b')"
    unfolding tail_def by (auto split: option.splits sum.splits) metis
  from a b show ?thesis by blast
qed

lemma run_invokes:
  "\<exists>evs. trace (fst (Bluebird_reduce (reducer options) ps index acc w)) = trace w @ evs
     \<and> (\<forall>j ident. Invoke j ident \<in> set evs \<longrightarrow>
           (\<exists>b b'. construct (backend options) (repository options) (reference options) = Inr b
                  \<and> init (backend options) b = Inr b'))"
proof (induction ps arbitrary: index acc w)
  case Nil
  show ?case by simp
next
  case (Cons p ps)
  obtain w1 r1 where step: "reducer options acc p index w = (w1, r1)"
    by (cases "reducer options acc p index w")
  from reducer_invokes [of options acc p index w] step
  obtain tail where
    tail: "trace w1 = trace w @ tail"
          "\<forall>j ident. Invoke j ident \<in> set tail \<longrightarrow>
           (\<exists>b b'. construct (backend options) (repository options) (reference options) = Inr b
                  \<and> init (backend options) b = Inr b')"
    by auto
  show ?case
  proof (cases r1)
    case (Inl e)
    with step have "fst (Bluebird_reduce (reducer options) (p # ps) index acc w) = w1" by simp
    with tail show ?thesis by auto
  next
    case (Inr a1)
    from Cons.IH [of "Suc index" a1 w1] obtain evs where
      evs: "trace (fst (Bluebird_reduce (reducer options) ps (Suc index) a1 w1)) = trace w1 @ evs"
           "\<forall>j ident. Invoke j ident \<in> set evs \<longrightarrow>
           (\<exists>b b'. construct (backend options) (repository options) (reference options) = Inr b
                  \<and> init (backend options) b = Inr b')"
      by blast
    from step Inr have "Bluebird_reduce (reducer options) (p # ps) index acc w
        = Bluebird_reduce (reducer options) ps (Suc index) a1 w1" by simp
    with evs(1) tail(1)
    have "trace (fst (Bluebird_reduce (reducer options) (p # ps) index acc w))
        = trace w @ (tail @ evs)" by simp
    moreover from tail(2) evs(2)
    have "\<forall>j ident. Invoke j ident \<in> set (tail @ evs) \<longrightarrow>
           (\<exists>b b'. construct (backend options) (repository options) (reference options) = Inr b
                  \<and> init (backend options) b = Inr b')"
      by auto
    ultimately show ?thesis by blast
  qed
qed

section \<open>The trace of a run\<close>

text \<open>
  Whatever the outcome, the events of a run are the first events of some number of
  complete steps, no more than there are extractors, and all of them when the run
  resolves.
\<close>

lemma run_events_snoc:
  "run_events options index ident (Suc m) =
     run_events options index ident m @ step_events options (index + m) (ident + m)"
  by (induction m arbitrary: index ident) simp_all

lemma run_trace_prefix:
  "\<exists>evs rest M. trace (fst (Bluebird_reduce (reducer options) ps index acc w)) = trace w @ evs
      \<and> evs @ rest = run_events options index (next_backend w) M
      \<and> M \<le> length ps
      \<and> (\<forall>a. snd (Bluebird_reduce (reducer options) ps index acc w) = Inr a
            \<longrightarrow> rest = [] \<and> M = length ps)"
proof -
  obtain w' r where run: "Bluebird_reduce (reducer options) ps index acc w = (w', r)"
    by (cases "Bluebird_reduce (reducer options) ps index acc w")
  show ?thesis
  proof (cases r)
    case (Inr a)
    with run have "w' = w\<lparr>trace := trace w @ run_events options index (next_backend w) (length ps),
          next_backend := next_backend w + length ps\<rparr>"
      by (simp add: reduce_resolved_world)
    then have "trace w' = trace w @ run_events options index (next_backend w) (length ps)
      \<and> run_events options index (next_backend w) (length ps) @ []
          = run_events options index (next_backend w) (length ps)
      \<and> length ps \<le> length ps
      \<and> (\<forall>a. r = Inr a \<longrightarrow> [] = ([]::event list) \<and> length ps = length ps)"
      by simp
    with run show ?thesis by (metis fst_conv snd_conv)
  next
    case (Inl e)
    with run have "Bluebird_reduce (reducer options) ps index acc w = (w', Inl e)" by simp
    from reduce_rejected [OF this] obtain k wk ak where
      k: "k < length ps"
         "Bluebird_reduce (reducer options) (take k ps) index acc w = (wk, Inr ak)"
         "reducer options ak (ps ! k) (index + k) wk = (w', Inl e)" by blast
    from reduce_resolved_world [OF k(2)] k(1)
    have wk: "wk = w\<lparr>trace := trace w @ run_events options index (next_backend w) k,
          next_backend := next_backend w + k\<rparr>"
      by (simp add: min_def)
    from reducer_trace [of options ak "ps ! k" "index + k" wk] k(3)
    obtain tail rest nb where
      t: "w' = wk\<lparr>trace := trace wk @ tail, next_backend := nb\<rparr>"
         "step_events options (index + k) (next_backend wk) = tail @ rest"
      by auto
    have "trace w' = trace w @ (run_events options index (next_backend w) k @ tail)
      \<and> (run_events options index (next_backend w) k @ tail) @ rest
          = run_events options index (next_backend w) (Suc k)
      \<and> Suc k \<le> length ps
      \<and> (\<forall>a. r = Inr a \<longrightarrow> rest = [] \<and> Suc k = length ps)"
      using t wk k(1) Inl by (simp add: run_events_snoc del: run_events.simps)
    with run show ?thesis by (metis fst_conv snd_conv)
  qed
qed



text \<open>What complete steps contain.\<close>

lemma Invoke_in_run_events:
  "Invoke j ident \<in> set (run_events options index nb m) \<Longrightarrow>
   index \<le> j \<and> j < index + m \<and> ident = nb + (j - index)"
proof (induction m arbitrary: index nb)
  case 0
  then show ?case by simp
next
  case (Suc m)
  from Suc.prems have "Invoke j ident \<in> set (step_events options index nb)
      \<or> Invoke j ident \<in> set (run_events options (Suc index) (Suc nb) m)" by auto
  then show ?case
  proof
    assume "Invoke j ident \<in> set (step_events options index nb)"
    then show ?thesis by (auto simp: step_events_def split: option.splits)
  next
    assume "Invoke j ident \<in> set (run_events options (Suc index) (Suc nb) m)"
    from Suc.IH [OF this] show ?thesis by auto
  qed
qed




lemma life_step_events:
  "filter (\<lambda>ev. backend_of ev = Some ident) (step_events options index nb) =
     (if ident = nb then [New nb (repository options) (reference options), Init nb, Invoke index nb]
      else [])"
  by (auto simp: step_events_def split: option.splits)

lemma life_run_events:
  "filter (\<lambda>ev. backend_of ev = Some ident) (run_events options index nb m) =
     (if nb \<le> ident \<and> ident < nb + m
      then [New ident (repository options) (reference options), Init ident,
            Invoke (index + (ident - nb)) ident]
      else [])"
proof (induction m arbitrary: index nb)
  case 0
  show ?case by simp
next
  case (Suc m)
  show ?case
    by (simp add: life_step_events Suc.IH) (auto simp: Suc_diff_le)
qed

lemma reported_append: "reported (xs @ ys) = reported xs @ reported ys"
  by (induction xs rule: reported.induct) simp_all

lemma reported_run_events:
  "progress options = Some sink \<Longrightarrow>
   reported (run_events options index nb m) = map (percentage options) [index..<index + m]"
proof (induction m arbitrary: index nb)
  case 0
  show ?case by simp
next
  case (Suc m)
  then show ?case
    by (simp add: reported_append step_events_def upt_conv_Cons del: upt_Suc)
qed

lemma reported_before_Invoke:
  "progress options = Some sink \<Longrightarrow>
   run_events options index nb m = pre @ Invoke i ident # post \<Longrightarrow>
   reported pre = map (percentage options) [index..<Suc i] \<and> index \<le> i"
proof (induction m arbitrary: index nb pre)
  case 0
  then show ?case by simp
next
  case (Suc m)
  let ?P = "Progress (percentage options index)"
  let ?N = "New nb (repository options) (reference options)"
  let ?R = "run_events options (Suc index) (Suc nb) m"
  from Suc.prems have eq: "?P # ?N # Init nb # Invoke index nb # ?R = pre @ Invoke i ident # post"
    by (simp add: step_events_def)
  then consider (here) "pre = [?P, ?N, Init nb]" "i = index"
    | (later) pre' where "pre = ?P # ?N # Init nb # Invoke index nb # pre'"
        "?R = pre' @ Invoke i ident # post"
    by (auto simp: Cons_eq_append_conv)
  then show ?case
  proof cases
    case here
    then show ?thesis by simp
  next
    case later
    from Suc.IH [OF Suc.prems(1) later(2)]
    have "reported pre' = map (percentage options) [Suc index..<Suc i]" "Suc index \<le> i"
      by simp_all
    with later(1) show ?thesis by (simp add: upt_conv_Cons del: upt_Suc)
  qed
qed

lemma percentage_bound:
  "i < length (plugins options) \<Longrightarrow> percentage options i \<le> 99"
proof -
  assume "i < length (plugins options)"
  then have "i * 100 < 100 * length (plugins options)" by simp
  then have "i * 100 div length (plugins options) < 100"
    by (simp add: less_mult_imp_div_less mult.commute)
  then show ?thesis by (simp add: percentage_def)
qed

lemma reported_prefix:
  "evs @ rest = run_events options index nb M \<Longrightarrow> progress options = Some sink \<Longrightarrow>
   \<exists>r\<le>M. reported evs = map (percentage options) [index..<index + r]"
proof -
  assume whole: "evs @ rest = run_events options index nb M" and sink: "progress options = Some sink"
  have "reported evs @ reported rest = map (percentage options) [index..<index + M]"
    using whole sink by (simp add: reported_append [symmetric] reported_run_events)
  then have "reported evs = take (length (reported evs)) (map (percentage options) [index..<index + M])"
    by (metis append_eq_conv_conj)
  moreover have "length (reported evs) \<le> M"
    using \<open>reported evs @ reported rest = map (percentage options) [index..<index + M]\<close>
    by (metis add_diff_cancel_left' le_add1 length_append length_map length_upt)
  ultimately have "length (reported evs) \<le> M
      \<and> reported evs = map (percentage options) [index..<index + length (reported evs)]"
    by (simp add: take_map min_def)
  then show ?thesis by blast
qed

lemma reported_first_events:
  "progress options = Some sink \<Longrightarrow> tail \<noteq> [] \<Longrightarrow>
   step_events options index ident = tail @ rest \<Longrightarrow>
   reported tail = [percentage options index]"
proof -
  assume sink: "progress options = Some sink" and ne: "tail \<noteq> []"
    and eq: "step_events options index ident = tail @ rest"
  from ne obtain ev tail' where tail: "tail = ev # tail'" by (cases tail) auto
  with eq sink have ev: "ev = Progress (percentage options index)"
    and rest: "[New ident (repository options) (reference options), Init ident,
                Invoke index ident] = tail' @ rest"
    by (simp_all add: step_events_def)
  have "reported tail' @ reported rest = []"
    unfolding reported_append [symmetric] rest [symmetric] by simp
  then show ?thesis by (simp add: tail ev)
qed

lemma rejected_reports:
  assumes "progress options = Some sink"
    and "k < length (plugins options)"
    and "Bluebird_reduce (reducer options) (take k (plugins options)) 0 (accumulator options) w
           = (w_k, Inr acc_k)"
    and "snd (reducer options acc_k (plugins options ! k) k w_k) = Inl e"
  shows "\<exists>evs. trace (fst (examineGitRepository options w)) = trace w @ evs
           \<and> reported evs = map (percentage options) [0..<Suc k]"
proof -
  let ?ps = "plugins options"
  obtain w' r where step: "reducer options acc_k (?ps ! k) k w_k = (w', r)"
    by (cases "reducer options acc_k (?ps ! k) k w_k")
  with assms(4) have r: "r = Inl e" by simp
  have "Bluebird_reduce (reducer options) (take k ?ps @ ?ps ! k # drop (Suc k) ?ps) 0
          (accumulator options) w
      = (case Bluebird_reduce (reducer options) (take k ?ps) 0 (accumulator options) w of
           (w', Inl e) \<Rightarrow> (w', Inl e)
         | (w', Inr a') \<Rightarrow>
             Bluebird_reduce (reducer options) (?ps ! k # drop (Suc k) ?ps)
               (0 + length (take k ?ps)) a' w')"
    by (rule reduce_append)
  moreover have "take k ?ps @ ?ps ! k # drop (Suc k) ?ps = ?ps"
    using assms(2) by (simp add: id_take_nth_drop [symmetric])
  ultimately have run: "examineGitRepository options w = (w', Inl e)"
    using assms(2,3) step r by (simp add: examineGitRepository_def min_def)
  from reduce_resolved_world [OF assms(3)] assms(2)
  have wk: "w_k = w\<lparr>trace := trace w @ run_events options 0 (next_backend w) k,
          next_backend := next_backend w + k\<rparr>"
    by (simp add: min_def)
  from reducer_trace [of options acc_k "?ps ! k" k w_k] step
  obtain tail rest nb where
    t: "w' = w_k\<lparr>trace := trace w_k @ tail, next_backend := nb\<rparr>" "tail \<noteq> []"
       "step_events options k (next_backend w_k) = tail @ rest"
    by auto
  have "trace w' = trace w @ (run_events options 0 (next_backend w) k @ tail)"
    using t(1) wk by simp
  moreover have "reported (run_events options 0 (next_backend w) k @ tail)
      = map (percentage options) [0..<Suc k]"
    using reported_first_events [OF assms(1) t(2,3)] assms(1)
    by (simp add: reported_append reported_run_events)
  ultimately show ?thesis using run by auto
qed

section \<open>The merge\<close>














section \<open>The accumulator\<close>



section \<open>Failure\<close>



section \<open>Progress\<close>

text \<open>
  Claim C4, as the code has it. In a run of \<open>n\<close> extractors with a progress sink, the
  values reported are \<open>floor(i * 100 / n)\<close> for \<open>i = 0, 1, ...\<close> in order, one for
  each extractor the run reaches: when the extractor at index \<open>i\<close> is called, the
  reports made so far are exactly those for \<open>0, ..., i\<close>, the last being its own.
  Every value reported is at most 99. When the run resolves, all \<open>n\<close> values have been
  reported, the last being \<open>floor((n - 1) * 100 / n)\<close>; when the run rejects at
  the extractor at index \<open>k\<close>, the values for \<open>0, ..., k\<close> have been reported and
  no other.
\<close>

theorem progress_reports:
  assumes "progress options = Some sink"
  shows "\<exists>evs. trace (fst (examineGitRepository options w)) = trace w @ evs
     \<and> (\<exists>r\<le>length (plugins options).
           reported evs = map (\<lambda>i. i * 100 div length (plugins options)) [0..<r])
     \<and> (\<forall>pre i ident post. evs = pre @ Invoke i ident # post \<longrightarrow>
           reported pre = map (\<lambda>i. i * 100 div length (plugins options)) [0..<Suc i])
     \<and> (\<forall>p. p \<in> set (reported evs) \<longrightarrow> p \<le> 99)
     \<and> (\<forall>a. snd (examineGitRepository options w) = Inr a \<longrightarrow>
           reported evs = map (\<lambda>i. i * 100 div length (plugins options))
                            [0..<length (plugins options)])
     \<and> (\<forall>a. snd (examineGitRepository options w) = Inr a \<and> plugins options \<noteq> [] \<longrightarrow>
           last (reported evs)
             = (length (plugins options) - 1) * 100 div length (plugins options))
     \<and> (\<forall>k w_k acc_k e.
           k < length (plugins options)
           \<and> Bluebird_reduce (reducer options) (take k (plugins options)) 0
                 (accumulator options) w = (w_k, Inr acc_k)
           \<and> snd (reducer options acc_k (plugins options ! k) k w_k) = Inl e \<longrightarrow>
           reported evs = map (\<lambda>i. i * 100 div length (plugins options)) [0..<Suc k])"
proof -
  let ?n = "length (plugins options)"
  have pct: "percentage options = (\<lambda>i. i * 100 div ?n)"
    by (rule ext) (simp add: percentage_def)
  from run_trace_prefix [of options "plugins options" 0 "accumulator options" w]
  obtain evs rest M where
    tr: "trace (fst (examineGitRepository options w)) = trace w @ evs"
    and whole: "evs @ rest = run_events options 0 (next_backend w) M"
    and M: "M \<le> ?n"
    and res: "\<forall>a. snd (examineGitRepository options w) = Inr a \<longrightarrow> rest = [] \<and> M = ?n"
    unfolding examineGitRepository_def by blast
  from reported_prefix [OF whole assms] obtain r where
    r: "r \<le> M" "reported evs = map (percentage options) [0..<r]" by auto
  have "r \<le> ?n \<and> reported evs = map (\<lambda>i. i * 100 div ?n) [0..<r]"
    using r M pct by simp
  then have a: "\<exists>r\<le>?n. reported evs = map (\<lambda>i. i * 100 div ?n) [0..<r]"
    by (rule exI)
  have b: "reported pre = map (\<lambda>i. i * 100 div ?n) [0..<Suc i]"
    if "evs = pre @ Invoke i ident # post" for pre i ident post
  proof -
    from that whole have "run_events options 0 (next_backend w) M = pre @ Invoke i ident # (post @ rest)"
      by simp
    from reported_before_Invoke [OF assms this] show ?thesis by (simp add: pct)
  qed
  have c: "p \<le> 99" if "p \<in> set (reported evs)" for p
  proof -
    from that r(2) obtain i where "i < r" "p = percentage options i" by auto
    with r(1) M show ?thesis by (simp add: percentage_bound)
  qed
  have d: "reported evs = map (\<lambda>i. i * 100 div ?n) [0..<?n]"
    if "snd (examineGitRepository options w) = Inr a" for a
  proof -
    from that res have "rest = []" "M = ?n" by simp_all
    with whole have "evs = run_events options 0 (next_backend w) ?n" by simp
    then show ?thesis using assms by (simp add: reported_run_events pct)
  qed
  have e: "last (reported evs) = (?n - 1) * 100 div ?n"
    if "snd (examineGitRepository options w) = Inr a" "plugins options \<noteq> []" for a
  proof -
    from that(2) have n: "0 < ?n" by simp
    then have "[0..<?n] \<noteq> []" by simp
    then have "last (map (\<lambda>i. i * 100 div ?n) [0..<?n]) = last [0..<?n] * 100 div ?n"
      by (simp add: last_map)
    also from n have "last [0..<?n] = ?n - 1"
      by (cases ?n) simp_all
    finally show ?thesis using d [OF that(1)] by simp
  qed
  have f: "reported evs = map (\<lambda>i. i * 100 div ?n) [0..<Suc k]"
    if "k < ?n"
       "Bluebird_reduce (reducer options) (take k (plugins options)) 0 (accumulator options) w
          = (w_k, Inr acc_k)"
       "snd (reducer options acc_k (plugins options ! k) k w_k) = Inl e"
    for k w_k acc_k e
  proof -
    from rejected_reports [OF assms that] obtain evs' where
      "trace (fst (examineGitRepository options w)) = trace w @ evs'"
      "reported evs' = map (percentage options) [0..<Suc k]"
      by blast
    with tr have "evs' = evs" by simp
    with \<open>reported evs' = map (percentage options) [0..<Suc k]\<close> show ?thesis
      by (simp add: pct)
  qed
  from tr a b c d e f show ?thesis by blast
qed

text \<open>
  Instances: a run of two extractors that resolves reports 0, then 50, and both have
  been reported when the second extractor is called; the run of three extractors whose
  second fails reports 0, then 33.
\<close>

theorem progress_reports_witness:
  "progress two_plugins = Some (\<lambda>percent. None)
   \<and> snd (examineGitRepository two_plugins world0)
       = Inr [(''tags'', Arr [Str ''z'', Str ''b'', Str ''c''] []), (''stars'', Num 2)]
   \<and> reported (trace (fst (examineGitRepository two_plugins world0))) = [0, 50]
   \<and> last (reported (trace (fst (examineGitRepository two_plugins world0)))) = 50
   \<and> trace (fst (examineGitRepository two_plugins world0))
       = [Progress 0, New 0 ''resin-io/etcher'' ''master'', Init 0, Invoke 0 0,
          Progress 50, New 1 ''resin-io/etcher'' ''master'', Init 1] @ Invoke 1 1 # []
   \<and> reported [Progress 0, New 0 ''resin-io/etcher'' ''master'', Init 0, Invoke 0 0,
                 Progress 50, New 1 ''resin-io/etcher'' ''master'', Init 1] = [0, 50]
   \<and> progress second_fails = Some (\<lambda>percent. None)
   \<and> reported (trace (fst (examineGitRepository second_fails world0))) = [0, 33]"
proof -
  let ?run = "examineGitRepository two_plugins world0"
  let ?pre = "[Progress 0, New 0 ''resin-io/etcher'' ''master'', Init 0, Invoke 0 0,
          Progress 50, New 1 ''resin-io/etcher'' ''master'', Init 1]"
  have h: "progress two_plugins = Some (\<lambda>percent. None)"
    by (simp add: two_plugins_def)
  have s: "snd ?run
       = Inr [(''tags'', Arr [Str ''z'', Str ''b'', Str ''c''] []), (''stars'', Num 2)]"
    by (simp add: two_plugins_def static_backend_def world0_def examineGitRepository_def run_simps)
  have t: "trace (fst ?run) = ?pre @ Invoke 1 1 # []"
    by code_simp
  have len: "length (plugins two_plugins) = 2" "plugins two_plugins \<noteq> []"
    by (simp_all add: two_plugins_def)
  from progress_reports [OF h, of world0] obtain evs where
    evs: "trace (fst ?run) = trace world0 @ evs"
         "\<forall>pre i ident post. evs = pre @ Invoke i ident # post \<longrightarrow>
            reported pre = map (\<lambda>i. i * 100 div length (plugins two_plugins)) [0..<Suc i]"
         "\<forall>a. snd ?run = Inr a \<longrightarrow>
            reported evs = map (\<lambda>i. i * 100 div length (plugins two_plugins))
                            [0..<length (plugins two_plugins)]"
         "\<forall>a. snd ?run = Inr a \<and> plugins two_plugins \<noteq> [] \<longrightarrow>
            last (reported evs)
              = (length (plugins two_plugins) - 1) * 100 div length (plugins two_plugins)"
    by blast
  from evs(1) have tr: "trace (fst ?run) = evs"
    by (simp add: world0_def)
  from evs(3) s have "reported evs = map (\<lambda>i. i * 100 div length (plugins two_plugins))
                            [0..<length (plugins two_plugins)]"
    by simp
  then have "reported evs = map (\<lambda>i. i * 100 div 2) [0..<2]"
    unfolding len .
  also have "\<dots> = [0, 50]"
    by code_simp
  finally have c1: "reported (trace (fst ?run)) = [0, 50]"
    unfolding tr .
  from evs(4) s len(2)
  have "last (reported evs)
      = (length (plugins two_plugins) - 1) * 100 div length (plugins two_plugins)"
    by simp
  then have c2: "last (reported (trace (fst ?run))) = 50"
    unfolding tr len by simp
  from t tr have "evs = ?pre @ Invoke 1 1 # []" by simp
  with evs(2) have "reported ?pre
      = map (\<lambda>i. i * 100 div length (plugins two_plugins)) [0..<Suc 1]"
    by blast
  then have "reported ?pre = map (\<lambda>i. i * 100 div 2) [0..<2]"
    unfolding len by (simp add: numeral_2_eq_2)
  also have "\<dots> = [0, 50]"
    by code_simp
  finally have c3: "reported ?pre = [0, 50]" .
  let ?ps = "plugins second_fails"
  let ?prefix = "Bluebird_reduce (reducer second_fails) (take 1 ?ps) 0
                   (accumulator second_fails) world0"
  have h': "progress second_fails = Some (\<lambda>percent. None)"
    by (simp add: second_fails_def)
  have k: "1 < length ?ps"
    by (simp add: second_fails_def)
  have "snd ?prefix = Inr [(''stars'', Num 1)]"
    by (simp add: second_fails_def static_backend_def world0_def run_simps)
  then have p: "?prefix = (fst ?prefix, Inr [(''stars'', Num 1)])"
    by (simp add: prod_eq_iff)
  have r: "snd (reducer second_fails [(''stars'', Num 1)] (?ps ! 1) 1 (fst ?prefix))
      = Inl ''rate limit exceeded''"
    by (simp add: reducer_snd sink_throws_def attempt_def second_fails_def static_backend_def)
  from progress_reports [OF h', of world0] obtain evs' where
    evs': "trace (fst (examineGitRepository second_fails world0)) = trace world0 @ evs'"
          "\<forall>k w_k acc_k e.
             k < length ?ps
             \<and> Bluebird_reduce (reducer second_fails) (take k ?ps) 0
                   (accumulator second_fails) world0 = (w_k, Inr acc_k)
             \<and> snd (reducer second_fails acc_k (?ps ! k) k w_k) = Inl e \<longrightarrow>
             reported evs' = map (\<lambda>i. i * 100 div length ?ps) [0..<Suc k]"
    by blast
  from evs'(2) k p r
  have "reported evs' = map (\<lambda>i. i * 100 div length ?ps) [0..<Suc 1]"
    by blast
  moreover have "length ?ps = 3"
    by (simp add: second_fails_def)
  ultimately have "reported evs' = map (\<lambda>i. i * 100 div 3) [0..<2]"
    by (simp add: numeral_2_eq_2)
  also have "\<dots> = [0, 33]"
    by code_simp
  finally have "reported evs' = [0, 33]" .
  with evs'(1) have c4: "reported (trace (fst (examineGitRepository second_fails world0))) = [0, 33]"
    by (simp add: world0_def)
  show ?thesis
    by (intro conjI h s c1 c2 t c3 h' c4)
qed

text \<open>
  The last value reported is not always \<open>floor((n - 1) * 100 / n)\<close>: in a run of
  three extractors whose second fails, the sink is called with 0 and with 33 and never
  with 66.
\<close>

theorem last_report_counterexample:
  "reported (trace (fst (examineGitRepository second_fails world0))) = [0, 33]
   \<and> (length (plugins second_fails) - 1) * 100 div length (plugins second_fails) = 66"
  by (simp add: second_fails_def static_backend_def world0_def examineGitRepository_def run_simps)

section \<open>Backends\<close>

text \<open>
  Claim C8. Every call of the reducer, for whatever accumulator, extractor, index and
  world: unless the progress sink throws, a backend is constructed for the repository
  and the reference of the run, its \<open>init\<close> is called, and the extractor is applied
  to the instance that this one call of \<open>init\<close> has returned; the call fails with
  the error of the first of these that fails, and otherwise returns the accumulator
  merged with what the extractor returns for that instance. In every run, whatever its
  outcome, the events about any one backend are the first events of: its construction
  with the repository and the reference of the run, one call of \<open>init\<close>, one call of
  an extractor. No backend that existed before the run is used in it. An extractor that
  is called is one of the run, given the backend constructed for its own position (the
  \<open>j\<close>-th backend of the run for the extractor at index \<open>j\<close>); that backend has
  been constructed and initialised with success, once, and is handed to this extractor
  only.
\<close>

theorem fresh_backend_per_extractor:
  "(\<forall>acc plugin index w0.
      snd (reducer options acc plugin index w0) =
        (case sink_throws options index of
           Some e \<Rightarrow> Inl e
         | None \<Rightarrow>
             (case construct (backend options) (repository options) (reference options) of
                Inl e \<Rightarrow> Inl e
              | Inr b \<Rightarrow>
                  (case init (backend options) b of
                     Inl e \<Rightarrow> Inl e
                   | Inr b' \<Rightarrow>
                       (case plugin (backend options, b') of
                          Inl e \<Rightarrow> Inl e
                        | Inr result \<Rightarrow> Inr (lodash_merge acc result))))))
   \<and> (\<exists>evs. trace (fst (examineGitRepository options w)) = trace w @ evs
     \<and> (\<forall>ident. \<exists>rest. filter (\<lambda>ev. backend_of ev = Some ident) evs @ rest
            = [New ident (repository options) (reference options), Init ident,
               Invoke (ident - next_backend w) ident])
     \<and> (\<forall>ident. ident < next_backend w \<longrightarrow> filter (\<lambda>ev. backend_of ev = Some ident) evs = [])
     \<and> (\<forall>j ident. Invoke j ident \<in> set evs \<longrightarrow>
            ident = next_backend w + j
            \<and> j < length (plugins options)
            \<and> filter (\<lambda>ev. backend_of ev = Some ident) evs
                = [New ident (repository options) (reference options), Init ident,
                   Invoke j ident]
            \<and> (\<exists>b b'. construct (backend options) (repository options) (reference options) = Inr b
                   \<and> init (backend options) b = Inr b'
                   \<and> attempt options (plugins options ! j)
                       = (plugins options ! j) (backend options, b'))))"
proof -
  let ?nb = "next_backend w"
  let ?life = "\<lambda>ident. filter (\<lambda>ev. backend_of ev = Some ident)"
  let ?full = "\<lambda>ident. [New ident (repository options) (reference options), Init ident,
               Invoke (ident - ?nb) ident]"
  have call: "\<forall>acc plugin index w0.
      snd (reducer options acc plugin index w0) =
        (case sink_throws options index of
           Some e \<Rightarrow> Inl e
         | None \<Rightarrow>
             (case construct (backend options) (repository options) (reference options) of
                Inl e \<Rightarrow> Inl e
              | Inr b \<Rightarrow>
                  (case init (backend options) b of
                     Inl e \<Rightarrow> Inl e
                   | Inr b' \<Rightarrow>
                       (case plugin (backend options, b') of
                          Inl e \<Rightarrow> Inl e
                        | Inr result \<Rightarrow> Inr (lodash_merge acc result)))))"
    by (simp add: reducer_snd attempt_def split: option.split sum.split)
  from run_trace_prefix [of options "plugins options" 0 "accumulator options" w]
  obtain evs rest M where
    tr: "trace (fst (examineGitRepository options w)) = trace w @ evs"
    and whole: "evs @ rest = run_events options 0 ?nb M"
    and M: "M \<le> length (plugins options)"
    unfolding examineGitRepository_def by blast
  from run_invokes [of options "plugins options" 0 "accumulator options" w]
  obtain evs' where
    tr': "trace (fst (examineGitRepository options w)) = trace w @ evs'"
    and invoked': "\<forall>j ident. Invoke j ident \<in> set evs' \<longrightarrow>
           (\<exists>b b'. construct (backend options) (repository options) (reference options) = Inr b
                  \<and> init (backend options) b = Inr b')"
    unfolding examineGitRepository_def by blast
  from tr tr' have "evs' = evs" by simp
  with invoked' have invoked: "\<exists>b b'.
      construct (backend options) (repository options) (reference options) = Inr b
      \<and> init (backend options) b = Inr b'"
    if "Invoke j ident \<in> set evs" for j ident
    using that by blast
  have split: "?life ident evs @ ?life ident rest
      = (if ?nb \<le> ident \<and> ident < ?nb + M then ?full ident else [])" for ident
  proof -
    have "?life ident evs @ ?life ident rest = ?life ident (evs @ rest)" by simp
    also have "\<dots> = ?life ident (run_events options 0 ?nb M)" unfolding whole ..
    finally show ?thesis by (simp add: life_run_events)
  qed
  have a: "\<exists>rest'. ?life ident evs @ rest' = ?full ident" for ident
  proof (cases "?nb \<le> ident \<and> ident < ?nb + M")
    case True
    with split [of ident] have "?life ident evs @ ?life ident rest = ?full ident" by simp
    then show ?thesis by (rule exI)
  next
    case False
    with split [of ident] have "?life ident evs = []" by simp
    then show ?thesis by simp
  qed
  have b: "?life ident evs = []" if "ident < ?nb" for ident
    using split [of ident] that by simp
  have c: "ident = ?nb + j \<and> j < length (plugins options)
           \<and> ?life ident evs
                = [New ident (repository options) (reference options), Init ident,
                   Invoke j ident]
           \<and> (\<exists>b b'. construct (backend options) (repository options) (reference options) = Inr b
                   \<and> init (backend options) b = Inr b'
                   \<and> attempt options (plugins options ! j)
                       = (plugins options ! j) (backend options, b'))"
    if "Invoke j ident \<in> set evs" for j ident
  proof -
    from that have "Invoke j ident \<in> set (evs @ rest)" by simp
    then have "Invoke j ident \<in> set (run_events options 0 ?nb M)" unfolding whole .
    from Invoke_in_run_events [OF this]
    have j: "j < M" "ident = ?nb + j" by simp_all
    with split [of ident]
    have eq: "?life ident evs @ ?life ident rest
        = [New ident (repository options) (reference options), Init ident, Invoke j ident]"
      by simp
    from that have "Invoke j ident \<in> set (?life ident evs)" by simp
    then obtain pre post where pp: "?life ident evs = pre @ Invoke j ident # post"
      by (meson split_list)
    with eq have "pre @ Invoke j ident # post @ ?life ident rest
        = [New ident (repository options) (reference options), Init ident, Invoke j ident]"
      by simp
    then have "post @ ?life ident rest = []"
      by (auto simp: append_eq_Cons_conv Cons_eq_append_conv)
    with eq have life: "?life ident evs
        = [New ident (repository options) (reference options), Init ident, Invoke j ident]"
      by simp
    from invoked [OF that] obtain b0 b1 where
      made: "construct (backend options) (repository options) (reference options) = Inr b0"
            "init (backend options) b0 = Inr b1"
      by blast
    then have "attempt options (plugins options ! j) = (plugins options ! j) (backend options, b1)"
      by (simp add: attempt_def)
    with made have "\<exists>b b'.
        construct (backend options) (repository options) (reference options) = Inr b
        \<and> init (backend options) b = Inr b'
        \<and> attempt options (plugins options ! j) = (plugins options ! j) (backend options, b')"
      by blast
    with j M life show ?thesis by simp
  qed
  from tr a b c
  have "\<exists>evs. trace (fst (examineGitRepository options w)) = trace w @ evs
     \<and> (\<forall>ident. \<exists>rest. ?life ident evs @ rest = ?full ident)
     \<and> (\<forall>ident. ident < ?nb \<longrightarrow> ?life ident evs = [])
     \<and> (\<forall>j ident. Invoke j ident \<in> set evs \<longrightarrow>
            ident = ?nb + j
            \<and> j < length (plugins options)
            \<and> ?life ident evs
                = [New ident (repository options) (reference options), Init ident,
                   Invoke j ident]
            \<and> (\<exists>b b'. construct (backend options) (repository options) (reference options) = Inr b
                   \<and> init (backend options) b = Inr b'
                   \<and> attempt options (plugins options ! j)
                       = (plugins options ! j) (backend options, b')))"
    by blast
  with call show ?thesis by (rule conjI)
qed

text \<open>
  Instances: the second of two extractors is given the second backend, which has been
  constructed and initialised, and the call of the reducer for it merges what it
  returns for that instance; in a run that starts when five backends exist already,
  nothing is done with the fifth.
\<close>

theorem fresh_backend_per_extractor_witness:
  "Invoke 1 1 \<in> set (trace (fst (examineGitRepository two_plugins world0)))
   \<and> filter (\<lambda>ev. backend_of ev = Some 1) (trace (fst (examineGitRepository two_plugins world0)))
       = [New 1 ''resin-io/etcher'' ''master'', Init 1, Invoke 1 1]
   \<and> (\<exists>b b'. construct (backend two_plugins) ''resin-io/etcher'' ''master'' = Inr b
          \<and> init (backend two_plugins) b = Inr b'
          \<and> attempt two_plugins (plugins two_plugins ! 1)
              = (plugins two_plugins ! 1) (backend two_plugins, b'))
   \<and> snd (reducer two_plugins [(''stars'', Num 1)] (plugins two_plugins ! 1) 1 world0)
       = Inr [(''stars'', Num 2), (''tags'', Arr [Str ''z''] [])]
   \<and> (4 :: nat) < next_backend (world0\<lparr>next_backend := 5\<rparr>)
   \<and> filter (\<lambda>ev. backend_of ev = Some 4)
        (trace (fst (examineGitRepository two_plugins (world0\<lparr>next_backend := 5\<rparr>)))) = []"
proof -
  have m: "Invoke 1 1 \<in> set (trace (fst (examineGitRepository two_plugins world0)))"
    by (simp add: two_plugins_def static_backend_def world0_def examineGitRepository_def run_simps)
  note T = fresh_backend_per_extractor [of two_plugins world0]
  from T [THEN conjunct2] obtain evs where
    evs: "trace (fst (examineGitRepository two_plugins world0)) = trace world0 @ evs"
         "\<forall>j ident. Invoke j ident \<in> set evs \<longrightarrow>
            ident = next_backend world0 + j
            \<and> j < length (plugins two_plugins)
            \<and> filter (\<lambda>ev. backend_of ev = Some ident) evs
                = [New ident (repository two_plugins) (reference two_plugins), Init ident,
                   Invoke j ident]
            \<and> (\<exists>b b'. construct (backend two_plugins) (repository two_plugins)
                         (reference two_plugins) = Inr b
                   \<and> init (backend two_plugins) b = Inr b'
                   \<and> attempt two_plugins (plugins two_plugins ! j)
                       = (plugins two_plugins ! j) (backend two_plugins, b'))"
    by (elim exE conjE)
  from evs(1) have tr: "trace (fst (examineGitRepository two_plugins world0)) = evs"
    by (simp add: world0_def)
  with m have "Invoke 1 1 \<in> set evs" by simp
  with evs(2) [rule_format, of 1 1]
  have both: "filter (\<lambda>ev. backend_of ev = Some 1) evs
                = [New 1 (repository two_plugins) (reference two_plugins), Init 1, Invoke 1 1]
            \<and> (\<exists>b b'. construct (backend two_plugins) (repository two_plugins)
                         (reference two_plugins) = Inr b
                   \<and> init (backend two_plugins) b = Inr b'
                   \<and> attempt two_plugins (plugins two_plugins ! 1)
                       = (plugins two_plugins ! 1) (backend two_plugins, b'))"
    by simp
  have rr: "repository two_plugins = ''resin-io/etcher''" "reference two_plugins = ''master''"
    by (simp_all add: two_plugins_def)
  from both have c: "filter (\<lambda>ev. backend_of ev = Some 1)
                 (trace (fst (examineGitRepository two_plugins world0)))
       = [New 1 ''resin-io/etcher'' ''master'', Init 1, Invoke 1 1]"
    unfolding tr rr by (rule conjunct1)
  from both have d: "\<exists>b b'. construct (backend two_plugins) ''resin-io/etcher'' ''master'' = Inr b
          \<and> init (backend two_plugins) b = Inr b'
          \<and> attempt two_plugins (plugins two_plugins ! 1)
              = (plugins two_plugins ! 1) (backend two_plugins, b')"
    unfolding rr by (rule conjunct2)
  from T [THEN conjunct1, rule_format, of "[(''stars'', Num 1)]" "plugins two_plugins ! 1" 1 world0]
  have e: "snd (reducer two_plugins [(''stars'', Num 1)] (plugins two_plugins ! 1) 1 world0)
       = Inr [(''stars'', Num 2), (''tags'', Arr [Str ''z''] [])]"
    by (simp add: sink_throws_def two_plugins_def static_backend_def run_simps)
  let ?w = "world0\<lparr>next_backend := 5\<rparr>"
  have old: "(4 :: nat) < next_backend ?w"
    by simp
  from fresh_backend_per_extractor [of two_plugins ?w, THEN conjunct2] obtain evs' where
    evs': "trace (fst (examineGitRepository two_plugins ?w)) = trace ?w @ evs'"
          "\<forall>ident. ident < next_backend ?w \<longrightarrow>
             filter (\<lambda>ev. backend_of ev = Some ident) evs' = []"
    by (elim exE conjE)
  from evs'(2) old have "filter (\<lambda>ev. backend_of ev = Some 4) evs' = []"
    by blast
  with evs'(1) have c': "filter (\<lambda>ev. backend_of ev = Some 4)
        (trace (fst (examineGitRepository two_plugins ?w))) = []"
    by (simp add: world0_def)
  show ?thesis
    by (intro conjI m c d e old c')
qed

section \<open>Two runs of one request\<close>






section \<open>A whitelist of unknown names\<close>

text \<open>
  Claim C10, as the code has it. When the whitelist is not empty, none of its names is
  a key of the registry and the registry object has nothing at any of them, no
  extractor is selected; a remote run resolves to the empty object and leaves the world
  as it was, so the progress sink is never called; a local run whose temporary
  directory and clone succeed resolves to the empty object and reports no progress
  either.
\<close>

theorem unregistered_whitelist_runs_nothing:
  assumes "whitelist \<noteq> []"
    and "set whitelist \<inter> fst ` set (BUILTIN_PLUGINS (require_plugin m)) = {}"
    and "\<forall>name\<in>set whitelist. registry_paths m name = None"
    and "whitelistPlugins opts = Some whitelist"
  shows "filterPlugins (require_plugin m) (registry_paths m) (whitelistPlugins opts) = []
     \<and> remote m gitRepository opts w = (w, Inr [])
     \<and> (tmp_dir m (packageJSON_name m @ ''_'') (dirs w) = Inr d
          \<and> git_clone m gitRepository d = None \<longrightarrow>
          snd (local m gitRepository opts w) = Inr []
          \<and> reported (trace (fst (local m gitRepository opts w))) = reported (trace w))"
proof -
  have sel: "filterPlugins (require_plugin m) (registry_paths m) (whitelistPlugins opts) = []"
    using assms by (simp add: filterPlugins_unregistered)
  then show ?thesis
    by (simp add: remote_def local_def examineGitRepository_def tmp_dirAsync_def clone_into_def
          emit_def reported_append)
qed

text \<open>An instance: the whitelist that names \<open>nope\<close> only, in a remote and in a local run.\<close>

theorem unregistered_whitelist_runs_nothing_witness:
  "[''nope''] \<noteq> ([] :: string list)
   \<and> set [''nope''] \<inter> fst ` set (BUILTIN_PLUGINS (require_plugin example_modules)) = {}
   \<and> registry_paths example_modules ''nope'' = None
   \<and> remote example_modules ''resin-io/etcher'' (example_options (Some [''nope''])) world0
       = (world0, Inr [])
   \<and> tmp_dir example_modules (packageJSON_name example_modules @ ''_'') (dirs world0)
       = Inr ''/tmp/scrutinizer_1''
   \<and> git_clone example_modules ''/home/user/etcher'' ''/tmp/scrutinizer_1'' = None
   \<and> snd (local example_modules ''/home/user/etcher'' (example_options (Some [''nope''])) world0)
       = Inr []
   \<and> reported (trace (fst (local example_modules ''/home/user/etcher''
                              (example_options (Some [''nope''])) world0))) = []"
proof -
  have h1: "[''nope''] \<noteq> ([] :: string list)" by simp
  have h2: "set [''nope''] \<inter> fst ` set (BUILTIN_PLUGINS (require_plugin example_modules)) = {}"
    by (simp add: BUILTIN_PLUGINS_def)
  have h3: "registry_paths example_modules ''nope'' = None"
    by (simp add: example_modules_def inherits_toString_def)
  then have h3': "\<forall>name\<in>set [''nope'']. registry_paths example_modules name = None"
    by simp
  have h4: "whitelistPlugins (example_options (Some [''nope''])) = Some [''nope'']"
    by (simp add: example_options_def)
  have h5: "tmp_dir example_modules (packageJSON_name example_modules @ ''_'') (dirs world0)
      = Inr ''/tmp/scrutinizer_1''"
    by (simp add: example_modules_def)
  have h6: "git_clone example_modules ''/home/user/etcher'' ''/tmp/scrutinizer_1'' = None"
    by (simp add: example_modules_def)
  from unregistered_whitelist_runs_nothing [OF h1 h2 h3' h4, of "''resin-io/etcher''" world0]
  have c: "remote example_modules ''resin-io/etcher'' (example_options (Some [''nope''])) world0
       = (world0, Inr [])"
    by simp
  from unregistered_whitelist_runs_nothing [OF h1 h2 h3' h4, of "''/home/user/etcher''" world0
      "''/tmp/scrutinizer_1''", THEN conjunct2, THEN conjunct2] h5 h6
  have "snd (local example_modules ''/home/user/etcher'' (example_options (Some [''nope''])) world0)
       = Inr []
     \<and> reported (trace (fst (local example_modules ''/home/user/etcher''
                              (example_options (Some [''nope''])) world0)))
       = reported (trace world0)"
    by blast
  then have c': "snd (local example_modules ''/home/user/etcher''
                        (example_options (Some [''nope''])) world0) = Inr []"
    and c'': "reported (trace (fst (local example_modules ''/home/user/etcher''
                              (example_options (Some [''nope''])) world0))) = []"
    by (simp_all add: world0_def)
  show ?thesis
    by (intro conjI h1 h2 h3 c h5 h6 c' c'')
qed

text \<open>
  The whitelist that names \<open>toString\<close> is not empty and names no key of the registry,
  yet one thing is selected, what the registry object inherits under that name: the
  progress sink is called with 0, a backend is constructed and initialised, and the run
  rejects, for what is selected is no plugin. And the empty whitelist, which has no
  name that is registered either, selects all 24 extractors: \<open>filterPlugins\<close> picks
  only when the whitelist is not empty.
\<close>

theorem unregistered_whitelist_counterexample:
  "[''toString''] \<noteq> ([] :: string list)
   \<and> set [''toString''] \<inter> fst ` set (BUILTIN_PLUGINS (require_plugin example_modules)) = {}
   \<and> length (filterPlugins (require_plugin example_modules) (registry_paths example_modules)
               (Some [''toString''])) = 1
   \<and> remote example_modules ''resin-io/etcher'' (example_options (Some [''toString''])) world0
       = (world0\<lparr>trace := [Progress 0, New 0 ''resin-io/etcher'' ''master'', Init 0, Invoke 0 0],
                  next_backend := 1\<rparr>,
          Inl ''TypeError: plugin(...).then is not a function'')
   \<and> set ([] :: string list) \<inter> fst ` set (BUILTIN_PLUGINS (require_plugin example_modules)) = {}
   \<and> length (filterPlugins (require_plugin example_modules) (registry_paths example_modules)
               (Some [])) = 24"
  by (simp add: example_modules_def example_options_def static_backend_def world0_def
        inherits_toString_def remote_def examineGitRepository_def filterPlugins_def
        lodash_pick_def lodash_values_def BUILTIN_PLUGINS_def run_simps)

section \<open>The temporary clone\<close>

text \<open>
  Claim C5 does not hold of the code. When a local run completes, whether it has
  resolved or, its clone failing, rejected, the temporary directory is still on disk:
  \<open>local\<close> has no step that removes it (the removal callback of \<open>tmp.dir\<close> is
  dropped by \<open>promisifyAll\<close>, and no handler follows the examination), and all it
  does is register the directory with \<open>tmp\<close>, for the exit of the process. The
  comment on the option \<open>unsafeCleanup\<close> (lines 151 to 153) says that the directory
  is removed when the module finishes its job.
\<close>

theorem temporary_clone_remains:
  "snd (local example_modules ''/home/user/etcher'' (example_options (Some [''license''])) world0)
     = Inr []
   \<and> dirs (fst (local example_modules ''/home/user/etcher''
                  (example_options (Some [''license''])) world0))
     = [''/tmp/scrutinizer_1'']
   \<and> removeObjects (fst (local example_modules ''/home/user/etcher''
                           (example_options (Some [''license''])) world0))
     = [(''/tmp/scrutinizer_1'', True)]
   \<and> snd (local (example_modules\<lparr>git_clone := \<lambda>source destination. Some ''fatal: not a git repository''\<rparr>)
            ''/home/user/etcher'' (example_options (Some [''license''])) world0)
     = Inl ''fatal: not a git repository''
   \<and> dirs (fst (local (example_modules\<lparr>git_clone := \<lambda>source destination. Some ''fatal: not a git repository''\<rparr>)
                  ''/home/user/etcher'' (example_options (Some [''license''])) world0))
     = [''/tmp/scrutinizer_1'']"
  by (simp add: example_modules_def example_files_def example_options_def static_backend_def world0_def
        inherits_toString_def
        local_def tmp_dirAsync_def clone_into_def examineGitRepository_def filterPlugins_def lodash_pick_def lodash_values_def
        BUILTIN_PLUGINS_def require_plugin_def call_readFile_def
        run_simps)

section \<open>The architecture plugin\<close>

text \<open>
  Claim C7, as the code has it. The partial result of the architecture plugin always
  has the one field \<open>architecture\<close>. Its value is the trimmed content of
  \<open>ARCHITECTURE.md\<close> when that is not empty, otherwise the trimmed content of
  \<open>docs/ARCHITECTURE.md\<close> when that is not empty, and otherwise \<open>null\<close>: an absent
  value is a field set to \<open>null\<close>, not an absent field.
\<close>

theorem architecture_result:
  "(architecture convert bk = Inr result \<longrightarrow>
      (\<exists>v. result = [(''architecture'', v)]
            \<and> (v = Null \<or> (\<exists>contents. v = Str (trim contents) \<and> trim contents \<noteq> []))))
   \<and> (call_readFile bk ''ARCHITECTURE.md'' = Inr f1
        \<and> call_readFile bk ''docs/ARCHITECTURE.md'' = Inr f2
        \<and> convert f1 = Inr c1 \<and> trim c1 \<noteq> []
      \<longrightarrow> architecture convert bk = Inr [(''architecture'', Str (trim c1))])
   \<and> (call_readFile bk ''ARCHITECTURE.md'' = Inr f1
        \<and> call_readFile bk ''docs/ARCHITECTURE.md'' = Inr f2
        \<and> convert f1 = Inr c1 \<and> trim c1 = [] \<and> convert f2 = Inr c2 \<and> trim c2 \<noteq> []
      \<longrightarrow> architecture convert bk = Inr [(''architecture'', Str (trim c2))])
   \<and> (call_readFile bk ''ARCHITECTURE.md'' = Inr f1
        \<and> call_readFile bk ''docs/ARCHITECTURE.md'' = Inr f2
        \<and> convert f1 = Inr c1 \<and> trim c1 = [] \<and> convert f2 = Inr c2 \<and> trim c2 = []
      \<longrightarrow> architecture convert bk = Inr [(''architecture'', Null)])"
proof -
  have a: "\<exists>v. result = [(''architecture'', v)]
            \<and> (v = Null \<or> (\<exists>contents. v = Str (trim contents) \<and> trim contents \<noteq> []))"
    if "architecture convert bk = Inr result"
    using that by (auto simp: architecture_def split: sum.splits if_splits)
  have b: "architecture convert bk = Inr [(''architecture'', Str (trim c1))]"
    if "call_readFile bk ''ARCHITECTURE.md'' = Inr f1"
       "call_readFile bk ''docs/ARCHITECTURE.md'' = Inr f2" "convert f1 = Inr c1" "trim c1 \<noteq> []"
    using that by (simp add: architecture_def)
  have c: "architecture convert bk = Inr [(''architecture'', Str (trim c2))]"
    if "call_readFile bk ''ARCHITECTURE.md'' = Inr f1"
       "call_readFile bk ''docs/ARCHITECTURE.md'' = Inr f2" "convert f1 = Inr c1" "trim c1 = []"
       "convert f2 = Inr c2" "trim c2 \<noteq> []"
    using that by (simp add: architecture_def)
  have d: "architecture convert bk = Inr [(''architecture'', Null)]"
    if "call_readFile bk ''ARCHITECTURE.md'' = Inr f1"
       "call_readFile bk ''docs/ARCHITECTURE.md'' = Inr f2" "convert f1 = Inr c1" "trim c1 = []"
       "convert f2 = Inr c2" "trim c2 = []"
    using that by (simp add: architecture_def)
  from a b c d show ?thesis by blast
qed

text \<open>
  Instances: a repository with an \<open>ARCHITECTURE.md\<close>, one with
  \<open>docs/ARCHITECTURE.md\<close> only, and one with neither file.
\<close>

theorem architecture_result_witness:
  "architecture (convertHtmlToMD_module example_modules)
     (static_backend (\<lambda>path. if path = ''ARCHITECTURE.md'' then Str '' # Design  '' else Str []), ())
     = Inr [(''architecture'', Str ''# Design'')]
   \<and> architecture (convertHtmlToMD_module example_modules)
     (static_backend (\<lambda>path. if path = ''docs/ARCHITECTURE.md'' then Str ''Layers'' else Str []), ())
     = Inr [(''architecture'', Str ''Layers'')]
   \<and> architecture (convertHtmlToMD_module example_modules) (github example_modules, ())
     = Inr [(''architecture'', Null)]
   \<and> (\<exists>v. [(''architecture'', Null)] = [(''architecture'', v)]
          \<and> (v = Null \<or> (\<exists>contents. v = Str (trim contents) \<and> trim contents \<noteq> [])))"
proof -
  let ?conv = "convertHtmlToMD_module example_modules"
  let ?bk = "(static_backend (\<lambda>path. if path = ''ARCHITECTURE.md'' then Str '' # Design  '' else Str []), ())"
  have "call_readFile ?bk ''ARCHITECTURE.md'' = Inr (Str '' # Design  '')
        \<and> call_readFile ?bk ''docs/ARCHITECTURE.md'' = Inr (Str [])
        \<and> ?conv (Str '' # Design  '') = Inr '' # Design  '' \<and> trim '' # Design  '' \<noteq> []"
    by (simp add: call_readFile_def static_backend_def example_modules_def trim_def isWhiteSpace_def)
  with architecture_result [of ?conv ?bk _ "Str '' # Design  ''" "Str []" "'' # Design  ''",
      THEN conjunct2, THEN conjunct1]
  have "architecture ?conv ?bk = Inr [(''architecture'', Str (trim '' # Design  ''))]"
    by (rule mp)
  then have c1: "architecture ?conv ?bk = Inr [(''architecture'', Str ''# Design'')]"
    by (simp add: trim_def isWhiteSpace_def)
  let ?docs = "(static_backend (\<lambda>path. if path = ''docs/ARCHITECTURE.md'' then Str ''Layers'' else Str []), ())"
  have "call_readFile ?docs ''ARCHITECTURE.md'' = Inr (Str [])
        \<and> call_readFile ?docs ''docs/ARCHITECTURE.md'' = Inr (Str ''Layers'')
        \<and> ?conv (Str []) = Inr [] \<and> trim [] = []
        \<and> ?conv (Str ''Layers'') = Inr ''Layers'' \<and> trim ''Layers'' \<noteq> []"
    by (simp add: call_readFile_def static_backend_def example_modules_def trim_def isWhiteSpace_def)
  with architecture_result [of ?conv ?docs _ "Str []" "Str ''Layers''" "[]" "''Layers''",
      THEN conjunct2, THEN conjunct2, THEN conjunct1]
  have "architecture ?conv ?docs = Inr [(''architecture'', Str (trim ''Layers''))]"
    by (rule mp)
  then have c2: "architecture ?conv ?docs = Inr [(''architecture'', Str ''Layers'')]"
    by (simp add: trim_def isWhiteSpace_def)
  let ?gh = "(github example_modules, ())"
  have "call_readFile ?gh ''ARCHITECTURE.md'' = Inr (Str [])
        \<and> call_readFile ?gh ''docs/ARCHITECTURE.md'' = Inr (Str [])
        \<and> ?conv (Str []) = Inr [] \<and> trim [] = [] \<and> ?conv (Str []) = Inr [] \<and> trim [] = []"
    by (simp add: call_readFile_def static_backend_def example_modules_def example_files_def trim_def)
  with architecture_result [of ?conv ?gh _ "Str []" "Str []" "[]" "[]",
      THEN conjunct2, THEN conjunct2, THEN conjunct2]
  have c3: "architecture ?conv ?gh = Inr [(''architecture'', Null)]"
    by (rule mp)
  with architecture_result [of ?conv ?gh "[(''architecture'', Null)]", THEN conjunct1]
  have c4: "\<exists>v. [(''architecture'', Null)] = [(''architecture'', v)]
          \<and> (v = Null \<or> (\<exists>contents. v = Str (trim contents) \<and> trim contents \<noteq> []))"
    by (rule mp)
  show ?thesis
    by (intro conjI c1 c2 c3 c4)
qed

text \<open>
  A remote run of the architecture plugin on a repository that has neither file
  resolves to an object whose field \<open>architecture\<close> is \<open>null\<close>.
\<close>

theorem architecture_null_counterexample:
  "snd (remote example_modules ''resin-io/etcher'' (example_options (Some [''architecture''])) world0)
     = Inr [(''architecture'', Null)]"
  by (simp add: example_modules_def example_files_def example_options_def static_backend_def world0_def
        remote_def examineGitRepository_def filterPlugins_def lodash_pick_def lodash_values_def
        BUILTIN_PLUGINS_def require_plugin_def call_readFile_def
        architecture_def trim_def run_simps)

section \<open>The changelog plugin\<close>

text \<open>
  Claim C6 does not hold of the code. On a repository that has a \<open>CHANGELOG.md\<close>
  and no \<open>.versionbot/CHANGELOG.yml\<close>, a remote run with the whitelist
  \<open>changelog\<close> resolves to an empty list of entries: inside the fallback the plugin
  tests \<open>contents\<close>, which is empty there, where it would test \<open>markdown\<close>.
\<close>

theorem changelog_markdown_fallback_is_empty:
  "snd (remote example_modules ''resin-io/etcher'' (example_options (Some [''changelog''])) world0)
     = Inr [(''changelog'', Arr [] [])]
   \<and> call_readFile (github example_modules, ()) ''.versionbot/CHANGELOG.yml'' = Inr (Str [])
   \<and> call_readFile (github example_modules, ()) ''CHANGELOG.md'' = Inr (Str ''# v1.0.0'')"
  by (simp add: example_modules_def example_files_def example_options_def static_backend_def world0_def
        remote_def examineGitRepository_def filterPlugins_def lodash_pick_def lodash_values_def
        BUILTIN_PLUGINS_def require_plugin_def call_readFile_def
        changelog_def run_simps)

end
